theory Spec2Isabelle
  imports Main "HOL-Library.Sublist" "HOL-Library.Signed_Division"
begin

section \<open>The logspout adapter for AWS Cloudwatch Logs (cloudwatch.go)\<close>

text \<open>
  The adapter is a pipeline of three goroutines: \<open>CloudwatchAdapter.Stream\<close> names the
  log group and log stream of every message, \<open>CloudwatchBatcher.Start\<close> collects the
  messages of each container into batches, and \<open>CloudwatchUploader.Start\<close> posts each
  batch to AWS.  Each goroutine is modelled as a step function over its own state; what it
  reads from the outside (the process environment, the Docker daemon, the template engine,
  the AWS client, the clock, the order of a \<open>range\<close> over a map) is an argument.
\<close>

subsection \<open>Go library functions on strings\<close>

text \<open>\<open>strings.TrimPrefix(s, "/")\<close>.\<close>

fun TrimPrefix_slash :: "string \<Rightarrow> string" where
  "TrimPrefix_slash (c # cs) = (if c = CHR ''/'' then cs else c # cs)"
| "TrimPrefix_slash [] = []"

text \<open>\<open>strings.Split(line, "=")\<close>: the result always has at least one field.\<close>

fun Split_eq :: "string \<Rightarrow> string list" where
  "Split_eq [] = [[]]"
| "Split_eq (c # cs) =
     (if c = CHR ''='' then [] # Split_eq cs
      else (case Split_eq cs of f # fs \<Rightarrow> (c # f) # fs | [] \<Rightarrow> [[c]]))"

text \<open>\<open>strings.Join(fields, "=")\<close>.\<close>

fun Join_eq :: "string list \<Rightarrow> string" where
  "Join_eq [] = []"
| "Join_eq [f] = f"
| "Join_eq (f # g # fs) = f @ CHR ''='' # Join_eq (g # fs)"

text \<open>\<open>os.Getenv\<close>: the empty string when the variable is not set.\<close>

definition Getenv :: "(string \<rightharpoonup> string) \<Rightarrow> string \<Rightarrow> string" where
  "Getenv environ key = (case environ key of None \<Rightarrow> [] | Some v \<Rightarrow> v)"

subsection \<open>Data\<close>

text \<open>A Go \<open>error\<close> value, with its text.\<close>

datatype error = Error string

text \<open>
  The fields of \<open>router.Message\<close> the adapter reads: \<open>m.Container.ID\<close>,
  \<open>m.Container.Name\<close>, \<open>m.Container.Config.Env\<close>, \<open>m.Container.Config.Hostname\<close>
  and \<open>m.Data\<close>.
\<close>

record router_Message =
  Container_ID :: string
  Container_Name :: string
  Container_Config_Env :: "string list"
  Container_Config_Hostname :: string
  Data :: string

record RenderContext =
  Host :: string
  Env :: "string \<rightharpoonup> string"
  Labels :: "string \<rightharpoonup> string"
  Name :: string
  ID :: string
  LoggerHost :: string

text \<open>\<open>Time\<close> is the \<open>time.Time\<close> of the message, as nanoseconds since the Unix epoch.\<close>

record CloudwatchMessage =
  Message :: string
  Group :: string
  Stream :: string
  Time :: int
  Container :: string

text \<open>
  The state of a \<open>CloudwatchAdapter\<close>: \<open>route.Options\<close>, \<open>osHost\<close> and the two
  name caches of the caching revision of the adapter.  Its \<open>client\<close> and its
  \<open>batcher\<close> are the outside of \<open>Stream\<close>: the answers of the first are an input,
  the messages sent to the second an output.
\<close>

record CloudwatchAdapter =
  route_Options :: "string \<rightharpoonup> string"
  osHost :: string
  groupnames :: "string \<rightharpoonup> string"
  streamnames :: "string \<rightharpoonup> string"

text \<open>
  Go's \<open>text/template\<close> is a library outside the repository, so the engine is an argument:
  \<open>Parse\<close> is \<open>template.New("template").Parse\<close> and \<open>Execute\<close> is
  \<open>template.Execute\<close> into a fresh buffer, returning the buffer's text.
\<close>

record 't template_engine =
  Parse :: "string \<Rightarrow> error + 't"
  Execute :: "'t \<Rightarrow> RenderContext \<Rightarrow> error + string"

subsection \<open>Naming: \<open>parseEnv\<close> and \<open>renderEnvValue\<close>\<close>

fun parseEnv :: "string list \<Rightarrow> (string \<rightharpoonup> string)" where
  "parseEnv [] = Map.empty"
| "parseEnv (line # envLines) =
     (let fields = Split_eq line;
          env = (if length fields > 1
                 then [hd fields \<mapsto> Join_eq (tl fields)] else Map.empty)
      in env ++ parseEnv envLines)"

text \<open>
  The first half of \<open>renderEnvValue\<close> (the three \<open>if\<close> statements on \<open>finalVal\<close>):
  the template text that is going to be rendered.
\<close>

definition finalVal_of ::
  "(string \<rightharpoonup> string) \<Rightarrow> CloudwatchAdapter \<Rightarrow> string \<Rightarrow> RenderContext \<Rightarrow> string \<Rightarrow> string"
where
  "finalVal_of environ a envKey context defaultVal =
     (let finalVal = defaultVal;
          finalVal = (if Getenv environ envKey \<noteq> [] then Getenv environ envKey else finalVal);
          finalVal = (case route_Options a envKey of Some routeOptionsVal \<Rightarrow> routeOptionsVal
                      | None \<Rightarrow> finalVal);
          finalVal = (case Env context envKey of Some containerEnvVal \<Rightarrow> containerEnvVal
                      | None \<Rightarrow> finalVal)
      in finalVal)"

text \<open>
  The second half: parse and execute the template.  In the source the assignment
  \<open>finalVal = renderedValue.String()\<close> stands after \<open>return defaultVal\<close> inside the
  error branch of \<open>Execute\<close>, where it is never run; the last statement returns
  \<open>finalVal\<close> as the first half left it.
\<close>

definition renderEnvValue ::
  "'t template_engine \<Rightarrow> (string \<rightharpoonup> string) \<Rightarrow> CloudwatchAdapter \<Rightarrow> string \<Rightarrow>
     RenderContext \<Rightarrow> string \<Rightarrow> string"
where
  "renderEnvValue eng environ a envKey context defaultVal =
     (let finalVal = finalVal_of environ a envKey context defaultVal
      in case Parse eng finalVal of
           Inl err \<Rightarrow> defaultVal
         | Inr template \<Rightarrow>
             (case Execute eng template context of
                Inl err \<Rightarrow> defaultVal
              | Inr renderedValue \<Rightarrow> finalVal))"

subsection \<open>\<open>CloudwatchAdapter.Stream\<close>, the revision with the name caches\<close>

text \<open>
  What one pass of the loop does to the outside: a call of \<open>client.InspectContainer\<close>
  (with the cache key \<open>m.Container.Name\<close> of the message and the \<open>m.Container.ID\<close>
  passed to the call), the two assignments that cache the group and the stream name of a
  container, and the message sent on \<open>batcher.Input\<close>.
\<close>

datatype adapter_event =
    InspectContainer string string
  | CacheWrite string string string
  | Send CloudwatchMessage

text \<open>
  An element of \<open>logstream\<close>, with what the outside gives while it is handled: the
  reading of \<open>time.Now()\<close> and the answer \<open>InspectContainer\<close> has for it (an error,
  or the \<open>Config.Labels\<close> of the container).
\<close>

type_synonym incoming = "router_Message \<times> int \<times> (error + (string \<rightharpoonup> string))"

text \<open>The \<open>RenderContext\<close> literal of \<open>Stream\<close>.\<close>

definition Stream_context ::
  "CloudwatchAdapter \<Rightarrow> router_Message \<Rightarrow> (string \<rightharpoonup> string) \<Rightarrow> RenderContext"
where
  "Stream_context a m labels =
     \<lparr>Host = Container_Config_Hostname m,
      Env = parseEnv (Container_Config_Env m),
      Labels = labels,
      Name = TrimPrefix_slash (Container_Name m),
      ID = Container_ID m,
      LoggerHost = osHost a\<rparr>"

definition Stream_step ::
  "'t template_engine \<Rightarrow> (string \<rightharpoonup> string) \<Rightarrow> CloudwatchAdapter \<Rightarrow> incoming \<Rightarrow>
     CloudwatchAdapter \<times> adapter_event list"
where
  "Stream_step eng environ a inc =
     (case inc of (m, now, inspected) \<Rightarrow>
       (let groupName = (case groupnames a (Container_Name m) of
                           Some cachedGroup \<Rightarrow> cachedGroup | None \<Rightarrow> []);
            streamName = (case streamnames a (Container_Name m) of
                            Some cachedStream \<Rightarrow> cachedStream | None \<Rightarrow> []);
            send = (\<lambda>groupName streamName.
                      Send \<lparr>Message = Data m, Group = groupName, Stream = streamName,
                            Time = now, Container = TrimPrefix_slash (Container_Name m)\<rparr>)
        in if streamName = [] \<or> groupName = [] then
             (case inspected of
                Inl err \<Rightarrow> (a, [InspectContainer (Container_Name m) (Container_ID m)])
              | Inr labels \<Rightarrow>
                  (let context = Stream_context a m labels;
                       groupName = renderEnvValue eng environ a ''LOG_GROUP'' context (osHost a);
                       streamName =
                         renderEnvValue eng environ a ''LOG_STREAM'' context (Name context)
                   in (a\<lparr>groupnames := (groupnames a)(Container_Name m \<mapsto> groupName),
                          streamnames := (streamnames a)(Container_Name m \<mapsto> streamName)\<rparr>,
                       [InspectContainer (Container_Name m) (Container_ID m),
                        CacheWrite (Container_Name m) groupName streamName,
                        send groupName streamName])))
           else (a, [send groupName streamName])))"

fun adapter_Stream ::
  "'t template_engine \<Rightarrow> (string \<rightharpoonup> string) \<Rightarrow> CloudwatchAdapter \<Rightarrow> incoming list \<Rightarrow>
     CloudwatchAdapter \<times> adapter_event list"
where
  "adapter_Stream eng environ a [] = (a, [])"
| "adapter_Stream eng environ a (inc # logstream) =
     (case Stream_step eng environ a inc of
        (a', evs) \<Rightarrow>
          (case adapter_Stream eng environ a' logstream of
             (a'', evs') \<Rightarrow> (a'', evs @ evs')))"

text \<open>
  The loop body of the first revision of \<open>Stream\<close> in the file, which has no caches
  (its comment asks for them): it inspects the container and renders both names for every
  message.  It reads no cache, so it only produces events.
\<close>

definition Stream_step_uncached ::
  "'t template_engine \<Rightarrow> (string \<rightharpoonup> string) \<Rightarrow> CloudwatchAdapter \<Rightarrow> incoming \<Rightarrow>
     adapter_event list"
where
  "Stream_step_uncached eng environ a inc =
     (case inc of (m, now, inspected) \<Rightarrow>
        (case inspected of
           Inl err \<Rightarrow> [InspectContainer (Container_Name m) (Container_ID m)]
         | Inr labels \<Rightarrow>
             (let context = Stream_context a m labels;
                  groupName = renderEnvValue eng environ a ''LOG_GROUP'' context (osHost a);
                  streamName =
                    renderEnvValue eng environ a ''LOG_STREAM'' context (Name context)
              in [InspectContainer (Container_Name m) (Container_ID m),
                  Send \<lparr>Message = Data m, Group = groupName, Stream = streamName,
                        Time = now, Container = Name context\<rparr>])))"

text \<open>The state \<open>NewCloudwatchAdapter\<close> returns: both caches empty.\<close>

definition NewCloudwatchAdapter :: "(string \<rightharpoonup> string) \<Rightarrow> string \<Rightarrow> CloudwatchAdapter" where
  "NewCloudwatchAdapter options hostname =
     \<lparr>route_Options = options, osHost = hostname,
      groupnames = Map.empty, streamnames = Map.empty\<rparr>"

subsection \<open>Messages and batches\<close>

record CloudwatchBatch =
  Msgs :: "CloudwatchMessage list"
  Size :: int

definition MAX_BATCH_SIZE :: int where
  "MAX_BATCH_SIZE = 3000"

definition MSG_OVERHEAD :: int where
  "MSG_OVERHEAD = 26"

text \<open>
  \<open>len\<close> counts the bytes of the message.  The sizes are unbounded integers here: the
  \<open>int\<close> and \<open>int64\<close> arithmetic of the source cannot wrap around for a message that
  fits in memory (a length below \<open>2 ^ 60\<close> on a 64-bit target).
\<close>

definition msgSize :: "CloudwatchMessage \<Rightarrow> int" where
  "msgSize msg = int (length (Message msg) * 8) + MSG_OVERHEAD"

definition NewCloudwatchBatch :: CloudwatchBatch where
  "NewCloudwatchBatch = \<lparr>Msgs = [], Size = 0\<rparr>"

definition Append :: "CloudwatchBatch \<Rightarrow> CloudwatchMessage \<Rightarrow> CloudwatchBatch" where
  "Append b msg = b\<lparr>Msgs := Msgs b @ [msg], Size := Size b + msgSize msg\<rparr>"

subsection \<open>\<open>CloudwatchBatcher.Start\<close>\<close>

text \<open>
  The two cases of the \<open>select\<close>: a message on \<open>Input\<close>, or the timer.  Go leaves
  the order of \<open>range b.batches\<close> open, so the timer event carries the order in which
  the runtime visits the keys.
\<close>

datatype batcher_event =
    Input CloudwatchMessage
  | Timer "string list"

text \<open>The case \<open>msg := <-b.Input\<close>: the batches sent on \<open>output\<close> and the new map.\<close>

definition batcher_input ::
  "(string \<rightharpoonup> CloudwatchBatch) \<Rightarrow> CloudwatchMessage \<Rightarrow>
     CloudwatchBatch list \<times> (string \<rightharpoonup> CloudwatchBatch)"
where
  "batcher_input batches msg =
     (let batches1 = (case batches (Container msg) of
                        None \<Rightarrow> batches(Container msg \<mapsto> NewCloudwatchBatch)
                      | Some _ \<Rightarrow> batches);
          current = (case batches1 (Container msg) of
                       Some b \<Rightarrow> b | None \<Rightarrow> NewCloudwatchBatch);
          (output, batches2) =
             (if Size current + msgSize msg > MAX_BATCH_SIZE
              then ([current], batches1(Container msg \<mapsto> NewCloudwatchBatch))
              else ([], batches1));
          thisBatch = (case batches2 (Container msg) of
                         Some b \<Rightarrow> b | None \<Rightarrow> NewCloudwatchBatch)
      in (output, batches2(Container msg \<mapsto> Append thisBatch msg)))"

text \<open>
  The case \<open><-b.timer\<close>: every batch the loop visits is sent and deleted.  A key that
  is not in the map is not visited.
\<close>

fun batcher_timer ::
  "string list \<Rightarrow> (string \<rightharpoonup> CloudwatchBatch) \<Rightarrow>
     CloudwatchBatch list \<times> (string \<rightharpoonup> CloudwatchBatch)"
where
  "batcher_timer [] batches = ([], batches)"
| "batcher_timer (container # order) batches =
     (case batches container of
        None \<Rightarrow> batcher_timer order batches
      | Some batch \<Rightarrow>
          (case batcher_timer order (batches(container := None)) of
             (output, batches') \<Rightarrow> (batch # output, batches')))"

text \<open>An order the runtime can choose for a map: each key once.\<close>

definition range_order :: "string list \<Rightarrow> (string \<rightharpoonup> CloudwatchBatch) \<Rightarrow> bool" where
  "range_order order batches = (distinct order \<and> set order = dom batches)"

definition batcher_step ::
  "(string \<rightharpoonup> CloudwatchBatch) \<Rightarrow> batcher_event \<Rightarrow>
     CloudwatchBatch list \<times> (string \<rightharpoonup> CloudwatchBatch)"
where
  "batcher_step batches ev =
     (case ev of Input msg \<Rightarrow> batcher_input batches msg
               | Timer order \<Rightarrow> batcher_timer order batches)"

text \<open>The loop: all the batches sent on \<open>output\<close>, in order, and the last map.\<close>

fun batcher_Start ::
  "(string \<rightharpoonup> CloudwatchBatch) \<Rightarrow> batcher_event list \<Rightarrow>
     CloudwatchBatch list \<times> (string \<rightharpoonup> CloudwatchBatch)"
where
  "batcher_Start batches [] = ([], batches)"
| "batcher_Start batches (ev # evs) =
     (case batcher_step batches ev of
        (output, batches') \<Rightarrow>
          (case batcher_Start batches' evs of
             (output', batches'') \<Rightarrow> (output @ output', batches'')))"

subsection \<open>The AWS client\<close>

text \<open>
  The calls of \<open>u.svc\<close>, an AWS SDK client outside the repository.  The service is an
  argument: each call takes the state of the service and returns its answer and the next
  state, so a service may answer the same request differently each time.
  \<open>DescribeLogGroups\<close> returns the names of \<open>resp.LogGroups\<close>, \<open>DescribeLogStreams\<close>
  the \<open>UploadSequenceToken\<close> of each of \<open>resp.LogStreams\<close> (a \<open>*string\<close>, which may
  be nil), and \<open>PutLogEvents\<close> returns \<open>resp.NextSequenceToken\<close>.
\<close>

record PutLogEventsInput =
  LogEvents :: "(string \<times> int) list"
  LogGroupName :: string
  LogStreamName :: string
  SequenceToken :: "string option"

record 's cloudwatchlogs =
  DescribeLogGroups :: "string \<Rightarrow> 's \<Rightarrow> (error + string list) \<times> 's"
  CreateLogGroup :: "string \<Rightarrow> 's \<Rightarrow> error option \<times> 's"
  DescribeLogStreams :: "string \<Rightarrow> string \<Rightarrow> 's \<Rightarrow> (error + string option list) \<times> 's"
  CreateLogStream :: "string \<Rightarrow> string \<Rightarrow> 's \<Rightarrow> error option \<times> 's"
  PutLogEvents :: "PutLogEventsInput \<Rightarrow> 's \<Rightarrow> (error + string option) \<times> 's"

text \<open>The verb \<open>%d\<close> of \<open>fmt.Sprintf\<close> on a count.\<close>

fun Itoa :: "nat \<Rightarrow> string" where
  "Itoa n = (if n < 10 then [char_of (48 + n)]
             else Itoa (n div 10) @ [char_of (48 + n mod 10)])"

subsection \<open>\<open>CloudwatchUploader\<close>: the methods that call AWS\<close>

definition groupExists :: "'s cloudwatchlogs \<Rightarrow> string \<Rightarrow> 's \<Rightarrow> (error + bool) \<times> 's" where
  "groupExists svc groupName s =
     (case DescribeLogGroups svc groupName s of
        (Inl err, s') \<Rightarrow> (Inl err, s')
      | (Inr LogGroups, s') \<Rightarrow>
          if length LogGroups > 1
          then (Inl (Error (Itoa (length LogGroups) @ '' groups match group '' @ groupName @ ''!'')), s')
          else if length LogGroups < 1 then (Inr False, s')
          else (Inr True, s'))"

definition createGroup :: "'s cloudwatchlogs \<Rightarrow> string \<Rightarrow> 's \<Rightarrow> error option \<times> 's" where
  "createGroup svc groupName s = CreateLogGroup svc groupName s"

definition createStream :: "'s cloudwatchlogs \<Rightarrow> string \<Rightarrow> string \<Rightarrow> 's \<Rightarrow> error option \<times> 's" where
  "createStream svc groupName stream s = CreateLogStream svc groupName stream s"

text \<open>
  The body of \<open>getSequenceToken\<close> up to its recursive call: \<open>Inl\<close> is what the method
  returns (an error or the token, and the state of the service), \<open>Inr\<close> the state of the
  service in which the method calls itself after it created the stream.
\<close>

definition getSequenceToken_body ::
  "'s cloudwatchlogs \<Rightarrow> CloudwatchMessage \<Rightarrow> 's \<Rightarrow> ((error + string option) \<times> 's) + 's"
where
  "getSequenceToken_body svc msg s =
     (let groupName = Group msg; stream = Stream msg
      in case groupExists svc groupName s of
           (Inl err, s1) \<Rightarrow> Inl (Inl err, s1)
         | (Inr exists, s1) \<Rightarrow>
             (case (if \<not> exists then createGroup svc groupName s1 else (None, s1)) of
                (Some err, s2) \<Rightarrow> Inl (Inl err, s2)
              | (None, s2) \<Rightarrow>
                  (case DescribeLogStreams svc groupName stream s2 of
                     (Inl err, s3) \<Rightarrow> Inl (Inl err, s3)
                   | (Inr LogStreams, s3) \<Rightarrow>
                       if length LogStreams > 1
                       then Inl (Inl (Error (Itoa (length LogStreams) @ '' streams match group ''
                                             @ groupName @ '', stream '' @ stream @ ''!'')), s3)
                       else if length LogStreams = 0
                       then (case createStream svc groupName stream s3 of
                               (Some err, s4) \<Rightarrow> Inl (Inl err, s4)
                             | (None, s4) \<Rightarrow> Inr s4)
                       else Inl (Inr (LogStreams ! 0), s3))))"

text \<open>
  The method: nothing in it bounds the recursion, so it is a partial function, and
  \<open>None\<close> is a call that never returns.
\<close>

partial_function (option) getSequenceToken ::
  "'s cloudwatchlogs \<Rightarrow> CloudwatchMessage \<Rightarrow> 's \<Rightarrow> ((error + string option) \<times> 's) option"
where
  "getSequenceToken svc msg s =
     (case getSequenceToken_body svc msg s of
        Inl returned \<Rightarrow> Some returned
      | Inr s4 \<Rightarrow> getSequenceToken svc msg s4)"

subsection \<open>\<open>CloudwatchUploader.Start\<close>\<close>

text \<open>The run-time panic of \<open>batch.Msgs[0]\<close> on an empty slice; it ends the process.\<close>

datatype panic = IndexOutOfRange

text \<open>
  The request of a batch.  The timestamp is \<open>msg.Time.UnixNano() / 1000000\<close>, a Go
  division, which truncates towards zero.
\<close>

definition PutLogEvents_params ::
  "CloudwatchBatch \<Rightarrow> CloudwatchMessage \<Rightarrow> string option \<Rightarrow> PutLogEventsInput"
where
  "PutLogEvents_params batch msg token =
     \<lparr>LogEvents = map (\<lambda>msg. (Message msg, Time msg sdiv 1000000)) (Msgs batch),
      LogGroupName = Group msg,
      LogStreamName = Stream msg,
      SequenceToken = token\<rparr>"

text \<open>
  The second half of the loop body, from the request to the end: the call of
  \<open>PutLogEvents\<close> and the caching of \<open>resp.NextSequenceToken\<close>.  The result is the
  token cache, the state of the service and the requests posted.
\<close>

definition uploader_post ::
  "'s cloudwatchlogs \<Rightarrow> (string \<rightharpoonup> string) \<Rightarrow> 's \<Rightarrow> CloudwatchBatch \<Rightarrow> CloudwatchMessage \<Rightarrow>
     string option \<Rightarrow> (string \<rightharpoonup> string) \<times> 's \<times> PutLogEventsInput list"
where
  "uploader_post svc tokens s batch msg token =
     (let params = PutLogEvents_params batch msg token
      in case PutLogEvents svc params s of
           (Inl err, s') \<Rightarrow> (tokens, s', [params])
         | (Inr NextSequenceToken, s') \<Rightarrow>
             (case NextSequenceToken of
                Some next \<Rightarrow> (tokens(Container msg \<mapsto> next), s', [params])
              | None \<Rightarrow> (tokens, s', [params])))"

text \<open>
  One pass of \<open>for batch := range u.Input\<close>.  \<open>None\<close>: the pass never ends (the
  token lookup recurses for ever); \<open>Some (Inl p)\<close>: the goroutine panics;
  \<open>Some (Inr (tokens', s', posted))\<close>: the pass ends with this cache, this state of
  the service and these requests posted.
\<close>

definition uploader_step ::
  "'s cloudwatchlogs \<Rightarrow> (string \<rightharpoonup> string) \<times> 's \<Rightarrow> CloudwatchBatch \<Rightarrow>
     (panic + (string \<rightharpoonup> string) \<times> 's \<times> PutLogEventsInput list) option"
where
  "uploader_step svc u batch =
     (case u of (tokens, s) \<Rightarrow>
       (case Msgs batch of
          [] \<Rightarrow> Some (Inl IndexOutOfRange)
        | msg # _ \<Rightarrow>
            (case tokens (Container msg) of
               Some cachedToken \<Rightarrow> Some (Inr (uploader_post svc tokens s batch msg (Some cachedToken)))
             | None \<Rightarrow>
                 (case getSequenceToken svc msg s of
                    None \<Rightarrow> None
                  | Some (Inl err, s') \<Rightarrow> Some (Inr (tokens, s', []))
                  | Some (Inr awsToken, s') \<Rightarrow>
                      (case awsToken of
                         Some t \<Rightarrow>
                           Some (Inr (uploader_post svc (tokens(Container msg \<mapsto> t)) s' batch msg
                                        awsToken))
                       | None \<Rightarrow> Some (Inr (uploader_post svc tokens s' batch msg awsToken)))))))"

text \<open>The loop over the batches that arrive; a panic ends it.\<close>

fun uploader_Start ::
  "'s cloudwatchlogs \<Rightarrow> (string \<rightharpoonup> string) \<times> 's \<Rightarrow> CloudwatchBatch list \<Rightarrow>
     (panic + (string \<rightharpoonup> string) \<times> 's \<times> PutLogEventsInput list) option"
where
  "uploader_Start svc u [] = Some (Inr (fst u, snd u, []))"
| "uploader_Start svc u (batch # batches) =
     (case uploader_step svc u batch of
        None \<Rightarrow> None
      | Some (Inl p) \<Rightarrow> Some (Inl p)
      | Some (Inr (tokens', s', posted)) \<Rightarrow>
          (case uploader_Start svc (tokens', s') batches of
             None \<Rightarrow> None
           | Some (Inl p) \<Rightarrow> Some (Inl p)
           | Some (Inr (tokens'', s'', posted')) \<Rightarrow> Some (Inr (tokens'', s'', posted @ posted'))))"

subsection \<open>Predicates of the properties and inputs of the examples\<close>

text \<open>The batch the \<open>Input\<close> case looks at: the open batch of the container, or a new one.\<close>

definition current_batch ::
  "(string \<rightharpoonup> CloudwatchBatch) \<Rightarrow> CloudwatchMessage \<Rightarrow> CloudwatchBatch" where
  "current_batch batches msg =
     (case batches (Container msg) of None \<Rightarrow> NewCloudwatchBatch | Some b \<Rightarrow> b)"

text \<open>
  The invariant of a batch: \<open>Size\<close> is the sum of the sizes of its messages, and it is
  within \<open>MAX_BATCH_SIZE\<close> unless the batch is one message that is too big by itself.
\<close>

definition batch_ok :: "CloudwatchBatch \<Rightarrow> bool" where
  "batch_ok b =
     (Size b = sum_list (map msgSize (Msgs b)) \<and>
      (Size b \<le> MAX_BATCH_SIZE \<or> (\<exists>m. Msgs b = [m] \<and> MAX_BATCH_SIZE < msgSize m)))"

definition batches_ok :: "(string \<rightharpoonup> CloudwatchBatch) \<Rightarrow> bool" where
  "batches_ok batches = (\<forall>k b. batches k = Some b \<longrightarrow> batch_ok b)"

text \<open>A message of \<open>n\<close> bytes from a container, for the examples.\<close>

definition example_msg :: "string \<Rightarrow> nat \<Rightarrow> CloudwatchMessage" where
  "example_msg container n =
     \<lparr>Message = replicate n (CHR ''x''), Group = ''host1'', Stream = container,
      Time = 0, Container = container\<rparr>"

text \<open>
  The state of the service after \<open>n\<close> passes of \<open>getSequenceToken\<close> that each found no
  stream, created it and called the method again; \<open>None\<close> when one of them returned.
\<close>

fun retry_state :: "'s cloudwatchlogs \<Rightarrow> CloudwatchMessage \<Rightarrow> nat \<Rightarrow> 's \<Rightarrow> 's option" where
  "retry_state svc msg 0 s = Some s"
| "retry_state svc msg (Suc n) s =
     (case getSequenceToken_body svc msg s of
        Inl returned \<Rightarrow> None
      | Inr s4 \<Rightarrow> retry_state svc msg n s4)"

text \<open>
  A service for the examples, with the number of \<open>CreateLogStream\<close> calls as its state:
  its groups are \<open>existing\<close> and the listing is by prefix; the stream appears in the
  listing, with the token \<open>t0\<close>, once \<open>lag\<close> creations were made; \<open>PutLogEvents\<close>
  answers \<open>put\<close>.
\<close>

definition example_svc ::
  "string list \<Rightarrow> nat \<Rightarrow> (error + string option) \<Rightarrow> nat cloudwatchlogs" where
  "example_svc existing lag put =
     \<lparr>DescribeLogGroups = (\<lambda>prefix n. (Inr (filter (Sublist.prefix prefix) existing), n)),
      CreateLogGroup = (\<lambda>groupName n. (None, n)),
      DescribeLogStreams =
        (\<lambda>groupName prefix n. (Inr (if n < lag then [] else [Some ''t0'']), n)),
      CreateLogStream = (\<lambda>groupName stream n. (None, Suc n)),
      PutLogEvents = (\<lambda>params n. (put, n))\<rparr>"

text \<open>
  Counting what \<open>Stream\<close> did for the cache key \<open>n\<close>: the calls of
  \<open>InspectContainer\<close> and the writes of the name caches.
\<close>

fun is_lookup :: "string \<Rightarrow> adapter_event \<Rightarrow> bool" where
  "is_lookup n (InspectContainer k containerID) = (k = n)"
| "is_lookup n (CacheWrite k g s) = False"
| "is_lookup n (Send msg) = False"

fun is_cache_write :: "string \<Rightarrow> adapter_event \<Rightarrow> bool" where
  "is_cache_write n (CacheWrite k g s) = (k = n)"
| "is_cache_write n (InspectContainer k containerID) = False"
| "is_cache_write n (Send msg) = False"

definition lookups :: "string \<Rightarrow> adapter_event list \<Rightarrow> nat" where
  "lookups n evs = length (filter (is_lookup n) evs)"

definition cache_writes :: "string \<Rightarrow> adapter_event list \<Rightarrow> nat" where
  "cache_writes n evs = length (filter (is_cache_write n) evs)"

text \<open>
  An element of \<open>logstream\<close> of the container name \<open>n\<close> for which \<open>InspectContainer\<close>
  has an error, or an answer.
\<close>

definition inspection_fails :: "string \<Rightarrow> incoming \<Rightarrow> bool" where
  "inspection_fails n inc = (case inc of (m, now, inspected) \<Rightarrow> Container_Name m = n \<and> isl inspected)"

definition inspection_succeeds :: "string \<Rightarrow> incoming \<Rightarrow> bool" where
  "inspection_succeeds n inc =
     (case inc of (m, now, inspected) \<Rightarrow> Container_Name m = n \<and> \<not> isl inspected)"

text \<open>
  The group and the stream name that \<open>Stream\<close> computes for an element of
  \<open>logstream\<close>, if Docker can inspect its container, are not empty.
\<close>

definition names_nonempty ::
  "'t template_engine \<Rightarrow> (string \<rightharpoonup> string) \<Rightarrow> CloudwatchAdapter \<Rightarrow> incoming \<Rightarrow> bool" where
  "names_nonempty eng environ a inc =
     (case inc of (m, now, inspected) \<Rightarrow>
        (case inspected of
           Inl err \<Rightarrow> True
         | Inr labels \<Rightarrow>
             renderEnvValue eng environ a ''LOG_GROUP'' (Stream_context a m labels) (osHost a) \<noteq> []
             \<and> renderEnvValue eng environ a ''LOG_STREAM'' (Stream_context a m labels)
                 (TrimPrefix_slash (Container_Name m)) \<noteq> []))"

text \<open>
  The name caches are well formed: a container name is in both or in neither, and no
  cached name is empty.
\<close>

definition cache_ok :: "CloudwatchAdapter \<Rightarrow> bool" where
  "cache_ok a =
     (\<forall>n. (groupnames a n = None) = (streamnames a n = None) \<and>
          groupnames a n \<noteq> Some [] \<and> streamnames a n \<noteq> Some [])"

text \<open>
  A template engine for the examples: every text parses, \<open>{{.Name}}\<close> renders as the
  \<open>Name\<close> of the context and any other text as itself.  A message of a container with
  a name and an environment.
\<close>

definition example_engine :: "string template_engine" where
  "example_engine =
     \<lparr>Parse = (\<lambda>text. Inr text),
      Execute = (\<lambda>template context.
         Inr (if template = ''{{.Name}}'' then Name context else template))\<rparr>"

definition example_record :: "string \<Rightarrow> string list \<Rightarrow> router_Message" where
  "example_record name env =
     \<lparr>Container_ID = ''abc'', Container_Name = name, Container_Config_Env = env,
      Container_Config_Hostname = ''h'', Data = ''hello''\<rparr>"

text \<open>
  The precedence of the naming expressions in the words of the specification: the value
  of the key in the environment of the source; otherwise the route option of that key;
  otherwise the environment variable of the process, when it is set and not empty;
  otherwise the built-in default.
\<close>

definition chosen_expression ::
  "(string \<rightharpoonup> string) \<Rightarrow> (string \<rightharpoonup> string) \<Rightarrow> (string \<rightharpoonup> string) \<Rightarrow> string \<Rightarrow> string \<Rightarrow>
     string"
where
  "chosen_expression containerEnv routeOptions environ key builtin =
     (case containerEnv key of
        Some perSource \<Rightarrow> perSource
      | None \<Rightarrow>
          (case routeOptions key of
             Some option \<Rightarrow> option
           | None \<Rightarrow> (if Getenv environ key \<noteq> [] then Getenv environ key else builtin)))"

text \<open>
  The group check of a pass of the token lookup passed and left the service in the state
  \<open>s2\<close>: the group exists, or it did not and was created.
\<close>

definition group_ready :: "'s cloudwatchlogs \<Rightarrow> CloudwatchMessage \<Rightarrow> 's \<Rightarrow> 's \<Rightarrow> bool" where
  "group_ready svc msg s s2 =
     (\<exists>exists s1. groupExists svc (Group msg) s = (Inr exists, s1) \<and>
        (if exists then s2 = s1 else createGroup svc (Group msg) s1 = (None, s2)))"


section \<open>Properties\<close>

subsection \<open>Naming\<close>

lemma example_record_simps:
  "Container_Name (example_record name env) = name"
  "Container_ID (example_record name env) = ''abc''"
  "Container_Config_Env (example_record name env) = env"
  "Data (example_record name env) = ''hello''"
  by (simp_all add: example_record_def)

lemma renderEnvValue_success:
  "Parse eng (finalVal_of environ a envKey context defaultVal) = Inr template \<Longrightarrow>
   Execute eng template context = Inr renderedValue \<Longrightarrow>
   renderEnvValue eng environ a envKey context defaultVal =
     finalVal_of environ a envKey context defaultVal"
  by (simp add: renderEnvValue_def)

lemma renderEnvValue_Parse_error:
  "Parse eng (finalVal_of environ a envKey context defaultVal) = Inl err \<Longrightarrow>
   renderEnvValue eng environ a envKey context defaultVal = defaultVal"
  by (simp add: renderEnvValue_def)

lemma renderEnvValue_Execute_error:
  "Parse eng (finalVal_of environ a envKey context defaultVal) = Inr template \<Longrightarrow>
   Execute eng template context = Inl err \<Longrightarrow>
   renderEnvValue eng environ a envKey context defaultVal = defaultVal"
  by (simp add: renderEnvValue_def)

lemma renderEnvValue_cases:
  "renderEnvValue eng environ a envKey context defaultVal =
     finalVal_of environ a envKey context defaultVal \<or>
   renderEnvValue eng environ a envKey context defaultVal = defaultVal"
  by (simp add: renderEnvValue_def Let_def split: sum.splits)

lemma finalVal_of_precedence:
  "finalVal_of environ a envKey context defaultVal =
     (case Env context envKey of
        Some containerEnvVal \<Rightarrow> containerEnvVal
      | None \<Rightarrow>
          (case route_Options a envKey of
             Some routeOptionsVal \<Rightarrow> routeOptionsVal
           | None \<Rightarrow>
               (if Getenv environ envKey \<noteq> [] then Getenv environ envKey else defaultVal)))"
  by (simp add: finalVal_of_def split: option.splits)

text \<open>
  C1 (the code differs).  The claim: when the naming expression parses and evaluates,
  \<open>renderEnvValue\<close> returns the result of the evaluation, not the text of the expression.
  The code returns the text: with \<open>LOG_GROUP={{.Name}}\<close> in the environment of the
  container \<open>web\<close> and an engine that renders \<open>{{.Name}}\<close> as \<open>web\<close>, the group name
  returned is \<open>{{.Name}}\<close>.  (By \<open>renderEnvValue_success\<close> this is so for every
  engine and every expression that parses and evaluates.)
\<close>

theorem C1_renderEnvValue_returns_template_text:
  "Parse example_engine ''{{.Name}}'' = Inr ''{{.Name}}'' \<and>
   Execute example_engine ''{{.Name}}''
     (Stream_context (NewCloudwatchAdapter Map.empty ''host1'')
        (example_record ''/web'' [''LOG_GROUP={{.Name}}'']) Map.empty) = Inr ''web'' \<and>
   renderEnvValue example_engine Map.empty (NewCloudwatchAdapter Map.empty ''host1'')
     ''LOG_GROUP''
     (Stream_context (NewCloudwatchAdapter Map.empty ''host1'')
        (example_record ''/web'' [''LOG_GROUP={{.Name}}'']) Map.empty) ''host1'' =
     ''{{.Name}}''"
  by (simp add: renderEnvValue_def finalVal_of_def Getenv_def NewCloudwatchAdapter_def
      Stream_context_def example_engine_def example_record_simps)

lemma finalVal_of_chosen:
  "finalVal_of environ a envKey context defaultVal =
     chosen_expression (Env context) (route_Options a) environ envKey defaultVal"
  by (simp add: finalVal_of_def chosen_expression_def split: option.splits)

lemma renderEnvValue_chosen:
  "renderEnvValue eng environ a envKey context defaultVal =
     (case Parse eng (chosen_expression (Env context) (route_Options a) environ envKey defaultVal) of
        Inl err \<Rightarrow> defaultVal
      | Inr template \<Rightarrow>
          (case Execute eng template context of
             Inl err \<Rightarrow> defaultVal
           | Inr renderedValue \<Rightarrow>
               chosen_expression (Env context) (route_Options a) environ envKey defaultVal))"
  by (simp add: renderEnvValue_def finalVal_of_chosen Let_def)

lemma Stream_context_simps:
  "Env (Stream_context a m labels) = parseEnv (Container_Config_Env m)"
  "LoggerHost (Stream_context a m labels) = osHost a"
  "Name (Stream_context a m labels) = TrimPrefix_slash (Container_Name m)"
  by (simp_all add: Stream_context_def)

text \<open>
  C7.  For a container that is not in the cache and that Docker can inspect, \<open>Stream\<close>
  caches and sends the two names that follow.  The naming expression of a slot is chosen
  by the precedence: the value of the key (\<open>LOG_GROUP\<close>, \<open>LOG_STREAM\<close>) in the
  environment of the container; otherwise the route option of that key; otherwise the
  environment variable of the logspout process, when it is set and not empty; otherwise
  the default, which is \<open>osHost\<close> (the \<open>LoggerHost\<close> of the context) for the group and
  the \<open>Name\<close> of the context (the container name without its leading slash) for the
  stream.  The name of the slot is the text of the chosen expression when it parses and
  executes (see C1), and the default of the slot when it does not.  The last part says the same of every call
  of \<open>renderEnvValue\<close>.
\<close>

theorem C7_naming_precedence:
  assumes "groupnames a (Container_Name m) = None"
  shows "Stream_step eng environ a (m, now, Inr labels) =
     (let context = Stream_context a m labels;
          groupExpr = chosen_expression (parseEnv (Container_Config_Env m)) (route_Options a)
                        environ ''LOG_GROUP'' (osHost a);
          streamExpr = chosen_expression (parseEnv (Container_Config_Env m)) (route_Options a)
                         environ ''LOG_STREAM'' (TrimPrefix_slash (Container_Name m));
          groupName = (case Parse eng groupExpr of
                         Inl err \<Rightarrow> osHost a
                       | Inr template \<Rightarrow>
                           (case Execute eng template context of
                              Inl err \<Rightarrow> osHost a
                            | Inr renderedValue \<Rightarrow> groupExpr));
          streamName = (case Parse eng streamExpr of
                          Inl err \<Rightarrow> TrimPrefix_slash (Container_Name m)
                        | Inr template \<Rightarrow>
                            (case Execute eng template context of
                               Inl err \<Rightarrow> TrimPrefix_slash (Container_Name m)
                             | Inr renderedValue \<Rightarrow> streamExpr))
      in (a\<lparr>groupnames := (groupnames a)(Container_Name m \<mapsto> groupName),
             streamnames := (streamnames a)(Container_Name m \<mapsto> streamName)\<rparr>,
          [InspectContainer (Container_Name m) (Container_ID m),
           CacheWrite (Container_Name m) groupName streamName,
           Send \<lparr>Message = Data m, Group = groupName, Stream = streamName, Time = now,
                 Container = TrimPrefix_slash (Container_Name m)\<rparr>]))
    \<and> LoggerHost (Stream_context a m labels) = osHost a
    \<and> Name (Stream_context a m labels) = TrimPrefix_slash (Container_Name m)
    \<and> (\<forall>envKey context defaultVal.
         renderEnvValue eng environ a envKey context defaultVal =
           (case Parse eng (chosen_expression (Env context) (route_Options a) environ envKey
                              defaultVal) of
              Inl err \<Rightarrow> defaultVal
            | Inr template \<Rightarrow>
                (case Execute eng template context of
                   Inl err \<Rightarrow> defaultVal
                 | Inr renderedValue \<Rightarrow>
                     chosen_expression (Env context) (route_Options a) environ envKey
                       defaultVal)))"
proof -
  have step: "Stream_step eng environ a (m, now, Inr labels) =
      (a\<lparr>groupnames := (groupnames a)(Container_Name m \<mapsto>
             renderEnvValue eng environ a ''LOG_GROUP'' (Stream_context a m labels) (osHost a)),
          streamnames := (streamnames a)(Container_Name m \<mapsto>
             renderEnvValue eng environ a ''LOG_STREAM'' (Stream_context a m labels)
               (TrimPrefix_slash (Container_Name m)))\<rparr>,
       [InspectContainer (Container_Name m) (Container_ID m),
        CacheWrite (Container_Name m)
          (renderEnvValue eng environ a ''LOG_GROUP'' (Stream_context a m labels) (osHost a))
          (renderEnvValue eng environ a ''LOG_STREAM'' (Stream_context a m labels)
             (TrimPrefix_slash (Container_Name m))),
        Send \<lparr>Message = Data m,
              Group = renderEnvValue eng environ a ''LOG_GROUP'' (Stream_context a m labels)
                        (osHost a),
              Stream = renderEnvValue eng environ a ''LOG_STREAM'' (Stream_context a m labels)
                         (TrimPrefix_slash (Container_Name m)),
              Time = now, Container = TrimPrefix_slash (Container_Name m)\<rparr>])"
    using assms by (simp add: Stream_step_def Let_def Stream_context_simps)
  show ?thesis
    unfolding step Let_def
    by (simp only: renderEnvValue_chosen Stream_context_simps simp_thms)
qed


theorem C7_naming_precedence_witness:
  "Stream_step example_engine [''LOG_GROUP'' \<mapsto> ''by-env'', ''LOG_STREAM'' \<mapsto> ''by-env'']
     (NewCloudwatchAdapter [''LOG_GROUP'' \<mapsto> ''by-route''] ''host1'')
     (example_record ''/web'' [''PATH=/bin'', ''LOG_STREAM=by-container''], 0, Inr Map.empty) =
   (\<lparr>route_Options = [''LOG_GROUP'' \<mapsto> ''by-route''], osHost = ''host1'',
     groupnames = [''/web'' \<mapsto> ''by-route''], streamnames = [''/web'' \<mapsto> ''by-container'']\<rparr>,
    [InspectContainer ''/web'' ''abc'', CacheWrite ''/web'' ''by-route'' ''by-container'',
     Send \<lparr>Message = ''hello'', Group = ''by-route'', Stream = ''by-container'', Time = 0,
           Container = ''web''\<rparr>]) \<and>
   Stream_step example_engine [''LOG_GROUP'' \<mapsto> ''by-env'']
     (NewCloudwatchAdapter Map.empty ''host1'')
     (example_record ''/web'' [''PATH=/bin''], 0, Inr Map.empty) =
   (\<lparr>route_Options = Map.empty, osHost = ''host1'',
     groupnames = [''/web'' \<mapsto> ''by-env''], streamnames = [''/web'' \<mapsto> ''web'']\<rparr>,
    [InspectContainer ''/web'' ''abc'', CacheWrite ''/web'' ''by-env'' ''web'',
     Send \<lparr>Message = ''hello'', Group = ''by-env'', Stream = ''web'', Time = 0,
           Container = ''web''\<rparr>])"
proof -
  have fresh: "groupnames (NewCloudwatchAdapter options ''host1'')
      (Container_Name (example_record ''/web'' env)) = None" for options env
    by (simp add: NewCloudwatchAdapter_def)
  have first: "Stream_step example_engine
      [''LOG_GROUP'' \<mapsto> ''by-env'', ''LOG_STREAM'' \<mapsto> ''by-env'']
     (NewCloudwatchAdapter [''LOG_GROUP'' \<mapsto> ''by-route''] ''host1'')
     (example_record ''/web'' [''PATH=/bin'', ''LOG_STREAM=by-container''], 0, Inr Map.empty) =
   (\<lparr>route_Options = [''LOG_GROUP'' \<mapsto> ''by-route''], osHost = ''host1'',
     groupnames = [''/web'' \<mapsto> ''by-route''], streamnames = [''/web'' \<mapsto> ''by-container'']\<rparr>,
    [InspectContainer ''/web'' ''abc'', CacheWrite ''/web'' ''by-route'' ''by-container'',
     Send \<lparr>Message = ''hello'', Group = ''by-route'', Stream = ''by-container'', Time = 0,
           Container = ''web''\<rparr>])"
    using C7_naming_precedence
      [OF fresh [of "[''LOG_GROUP'' \<mapsto> ''by-route'']"
                    "[''PATH=/bin'', ''LOG_STREAM=by-container'']"],
       of example_engine "[''LOG_GROUP'' \<mapsto> ''by-env'', ''LOG_STREAM'' \<mapsto> ''by-env'']"
          0 Map.empty, THEN conjunct1]
    by (simp add: chosen_expression_def Getenv_def example_engine_def example_record_simps
        NewCloudwatchAdapter_def Let_def)
  have second: "Stream_step example_engine [''LOG_GROUP'' \<mapsto> ''by-env'']
     (NewCloudwatchAdapter Map.empty ''host1'')
     (example_record ''/web'' [''PATH=/bin''], 0, Inr Map.empty) =
   (\<lparr>route_Options = Map.empty, osHost = ''host1'',
     groupnames = [''/web'' \<mapsto> ''by-env''], streamnames = [''/web'' \<mapsto> ''web'']\<rparr>,
    [InspectContainer ''/web'' ''abc'', CacheWrite ''/web'' ''by-env'' ''web'',
     Send \<lparr>Message = ''hello'', Group = ''by-env'', Stream = ''web'', Time = 0,
           Container = ''web''\<rparr>])"
    using C7_naming_precedence
      [OF fresh [of Map.empty "[''PATH=/bin'']"],
       of example_engine "[''LOG_GROUP'' \<mapsto> ''by-env'']" 0 Map.empty, THEN conjunct1]
    by (simp add: chosen_expression_def Getenv_def example_engine_def example_record_simps
        NewCloudwatchAdapter_def Let_def)
  from first second show ?thesis by (rule conjI)
qed

subsection \<open>The name caches\<close>

lemma cache_ok_New: "cache_ok (NewCloudwatchAdapter options hostname)"
  by (simp add: cache_ok_def NewCloudwatchAdapter_def)

lemma Stream_step_hit:
  assumes "cache_ok a" and "groupnames a (Container_Name m) \<noteq> None"
  shows "\<exists>msg. Stream_step eng environ a (m, now, inspected) = (a, [Send msg])"
proof -
  from assms obtain g s where g: "groupnames a (Container_Name m) = Some g"
    and s: "streamnames a (Container_Name m) = Some s"
    unfolding cache_ok_def by (metis not_None_eq)
  from assms(1) g s have "g \<noteq> []" "s \<noteq> []" unfolding cache_ok_def by metis+
  with g s show ?thesis by (simp add: Stream_step_def)
qed

lemma Stream_step_miss_fail:
  assumes "cache_ok a" and "groupnames a (Container_Name m) = None"
  shows "Stream_step eng environ a (m, now, Inl err) =
           (a, [InspectContainer (Container_Name m) (Container_ID m)])"
  using assms by (simp add: Stream_step_def)

lemma Stream_step_miss_ok:
  assumes "groupnames a (Container_Name m) = None"
  shows "\<exists>g s msg. Stream_step eng environ a (m, now, Inr labels) =
           (a\<lparr>groupnames := (groupnames a)(Container_Name m \<mapsto> g),
              streamnames := (streamnames a)(Container_Name m \<mapsto> s)\<rparr>,
            [InspectContainer (Container_Name m) (Container_ID m),
             CacheWrite (Container_Name m) g s, Send msg])
         \<and> g = renderEnvValue eng environ a ''LOG_GROUP'' (Stream_context a m labels) (osHost a)
         \<and> s = renderEnvValue eng environ a ''LOG_STREAM'' (Stream_context a m labels)
                 (TrimPrefix_slash (Container_Name m))"
  using assms by (simp add: Stream_step_def Let_def Stream_context_def)

lemma names_nonempty_frame:
  "names_nonempty eng environ (a\<lparr>groupnames := gs, streamnames := ss\<rparr>) inc =
   names_nonempty eng environ a inc"
  by (simp add: names_nonempty_def renderEnvValue_def finalVal_of_def Stream_context_def
      split: prod.splits sum.splits)

lemma cache_ok_update:
  "cache_ok a \<Longrightarrow> g \<noteq> [] \<Longrightarrow> s \<noteq> [] \<Longrightarrow>
   cache_ok (a\<lparr>groupnames := (groupnames a)(k \<mapsto> g), streamnames := (streamnames a)(k \<mapsto> s)\<rparr>)"
  by (simp add: cache_ok_def)


lemma count_simps:
  "lookups n [] = 0" "cache_writes n [] = 0"
  "lookups n (evs @ evs') = lookups n evs + lookups n evs'"
  "cache_writes n (evs @ evs') = cache_writes n evs + cache_writes n evs'"
  "lookups n (ev # evs) = (if is_lookup n ev then 1 else 0) + lookups n evs"
  "cache_writes n (ev # evs) = (if is_cache_write n ev then 1 else 0) + cache_writes n evs"
  by (simp_all add: lookups_def cache_writes_def)

text \<open>The first revision makes a lookup for every message.\<close>

lemma Stream_step_uncached_lookup:
  "lookups (Container_Name m) (Stream_step_uncached eng environ a (m, now, inspected)) = 1"
  by (cases inspected) (simp_all add: Stream_step_uncached_def Let_def count_simps)

lemma Stream_step_counts:
  assumes ok: "cache_ok a" and ne: "names_nonempty eng environ a (m, now, inspected)"
    and step: "Stream_step eng environ a (m, now, inspected) = (a1, e1)"
  shows "cache_ok a1 \<and>
    (\<forall>inc. names_nonempty eng environ a1 inc = names_nonempty eng environ a inc) \<and>
    (groupnames a1 n = None) =
      (groupnames a n = None \<and> \<not> inspection_succeeds n (m, now, inspected)) \<and>
    cache_writes n e1 =
      (if groupnames a n = None \<and> inspection_succeeds n (m, now, inspected) then 1 else 0) \<and>
    lookups n e1 = (if groupnames a n = None \<and> Container_Name m = n then 1 else 0)"
proof (cases "groupnames a (Container_Name m)")
  case (Some g)
  then have "groupnames a (Container_Name m) \<noteq> None" by simp
  from Stream_step_hit [OF ok this, of eng environ now inspected] step
  obtain msg where "a1 = a" "e1 = [Send msg]" by auto
  with Some show ?thesis
    using ok by (auto simp: count_simps inspection_succeeds_def)
next
  case None
  show ?thesis
  proof (cases inspected)
    case (Inl err)
    from Stream_step_miss_fail [OF ok None, of eng environ now err] step Inl
    have "a1 = a" "e1 = [InspectContainer (Container_Name m) (Container_ID m)]" by simp_all
    with None Inl show ?thesis
      using ok by (auto simp: count_simps inspection_succeeds_def)
  next
    case (Inr labels)
    from Stream_step_miss_ok [OF None, of eng environ now labels] step Inr
    obtain g s msg where a1: "a1 = a\<lparr>groupnames := (groupnames a)(Container_Name m \<mapsto> g),
              streamnames := (streamnames a)(Container_Name m \<mapsto> s)\<rparr>"
      and e1: "e1 = [InspectContainer (Container_Name m) (Container_ID m),
             CacheWrite (Container_Name m) g s, Send msg]"
      and g: "g = renderEnvValue eng environ a ''LOG_GROUP'' (Stream_context a m labels) (osHost a)"
      and s: "s = renderEnvValue eng environ a ''LOG_STREAM'' (Stream_context a m labels)
                 (TrimPrefix_slash (Container_Name m))"
      by auto
    from ne Inr g s have "g \<noteq> []" "s \<noteq> []" by (simp_all add: names_nonempty_def)
    from cache_ok_update [OF ok this] a1 have ok1: "cache_ok a1" by simp
    have frame: "\<forall>inc. names_nonempty eng environ a1 inc = names_nonempty eng environ a inc"
      unfolding a1 by (simp add: names_nonempty_frame)
    have cache: "(groupnames a1 n = None) =
      (groupnames a n = None \<and> \<not> inspection_succeeds n (m, now, inspected))"
      using None Inr by (auto simp: a1 inspection_succeeds_def)
    have counts: "cache_writes n e1 =
        (if groupnames a n = None \<and> inspection_succeeds n (m, now, inspected) then 1 else 0)"
      "lookups n e1 = (if groupnames a n = None \<and> Container_Name m = n then 1 else 0)"
      using None Inr by (auto simp: e1 count_simps inspection_succeeds_def)
    from ok1 frame cache counts show ?thesis by blast
  qed
qed


lemma adapter_Stream_counts:
  assumes "cache_ok a" and "\<forall>inc \<in> set logstream. names_nonempty eng environ a inc"
    and "adapter_Stream eng environ a logstream = (a', evs)"
  shows "cache_writes n evs =
      (if groupnames a n = None \<and> (\<exists>inc \<in> set logstream. inspection_succeeds n inc)
       then 1 else 0) \<and>
    lookups n evs \<le> cache_writes n evs + length (filter (inspection_fails n) logstream) \<and>
    (groupnames a n \<noteq> None \<longrightarrow> lookups n evs = 0)"
  using assms
proof (induction logstream arbitrary: a a' evs)
  case Nil
  then show ?case by (simp add: count_simps)
next
  case (Cons inc logstream)
  obtain m now inspected where inc: "inc = (m, now, inspected)" by (cases inc)
  obtain a1 e1 where step: "Stream_step eng environ a (m, now, inspected) = (a1, e1)"
    by (cases "Stream_step eng environ a (m, now, inspected)")
  obtain a2 e2 where rest: "adapter_Stream eng environ a1 logstream = (a2, e2)"
    by (cases "adapter_Stream eng environ a1 logstream")
  from Cons.prems(3) inc step rest have evs: "evs = e1 @ e2" by simp
  from Cons.prems(2) inc have ne: "names_nonempty eng environ a (m, now, inspected)" by simp
  from Stream_step_counts [OF Cons.prems(1) ne step, of n]
  have ok1: "cache_ok a1"
    and frame: "\<forall>inc. names_nonempty eng environ a1 inc = names_nonempty eng environ a inc"
    and cache: "(groupnames a1 n = None) =
      (groupnames a n = None \<and> \<not> inspection_succeeds n (m, now, inspected))"
    and w1: "cache_writes n e1 =
      (if groupnames a n = None \<and> inspection_succeeds n (m, now, inspected) then 1 else 0)"
    and l1: "lookups n e1 = (if groupnames a n = None \<and> Container_Name m = n then 1 else 0)"
    by blast+
  have ne1: "\<forall>inc \<in> set logstream. names_nonempty eng environ a1 inc"
  proof
    fix x assume "x \<in> set logstream"
    with Cons.prems(2) have "names_nonempty eng environ a x" by simp
    with frame show "names_nonempty eng environ a1 x" by blast
  qed
  from Cons.IH [OF ok1 ne1 rest]
  have w2: "cache_writes n e2 =
      (if groupnames a1 n = None \<and> (\<exists>inc \<in> set logstream. inspection_succeeds n inc)
       then 1 else 0)"
    and l2: "lookups n e2 \<le> cache_writes n e2 + length (filter (inspection_fails n) logstream)"
    and h2: "groupnames a1 n \<noteq> None \<longrightarrow> lookups n e2 = 0"
    by blast+
  have split: "Container_Name m = n \<longrightarrow>
      inspection_succeeds n (m, now, inspected) \<noteq> inspection_fails n (m, now, inspected)"
    by (simp add: inspection_succeeds_def inspection_fails_def)
  have writes: "cache_writes n evs =
      (if groupnames a n = None \<and> (\<exists>inc \<in> set (inc # logstream). inspection_succeeds n inc)
       then 1 else 0)"
    unfolding evs count_simps w1 w2 cache inc by auto
  have l1': "lookups n e1 \<le> cache_writes n e1 +
      (if inspection_fails n (m, now, inspected) then 1 else 0)"
    unfolding l1 w1 using split by (auto simp: inspection_succeeds_def)
  have looks: "lookups n evs \<le>
      cache_writes n evs + length (filter (inspection_fails n) (inc # logstream))"
    unfolding evs count_simps inc using l1' l2
    by (cases "inspection_fails n (m, now, inspected)") simp_all
  have hit: "groupnames a n \<noteq> None \<longrightarrow> lookups n evs = 0"
    unfolding evs count_simps using l1 h2 cache by auto
  from writes looks hit show ?case by blast
qed

lemma example_names_nonempty:
  "names_nonempty example_engine Map.empty (NewCloudwatchAdapter Map.empty ''host1'')
     (example_record ''/web'' [''PATH=/bin''], now, Inr Map.empty)"
  by (simp add: names_nonempty_def renderEnvValue_def finalVal_of_def Getenv_def
      Stream_context_def NewCloudwatchAdapter_def example_engine_def example_record_simps)

text \<open>
  C2 (the claim as stated fails).  Docker cannot inspect the container of two messages
  in a row: \<open>Stream\<close> calls \<open>InspectContainer\<close> for each of them, two lookups for one
  source, and caches nothing.
\<close>

theorem C2_counterexample:
  "adapter_Stream example_engine Map.empty (NewCloudwatchAdapter Map.empty ''host1'')
     [(example_record ''/web'' [], 0, Inl (Error ''no such container'')),
      (example_record ''/web'' [], 1, Inl (Error ''no such container''))] =
   (NewCloudwatchAdapter Map.empty ''host1'',
    [InspectContainer ''/web'' ''abc'', InspectContainer ''/web'' ''abc'']) \<and>
   lookups ''/web'' [InspectContainer ''/web'' ''abc'', InspectContainer ''/web'' ''abc''] = 2"
  by (simp add: Stream_step_def NewCloudwatchAdapter_def example_record_simps lookups_def)

text \<open>
  C2 (amended).  \<open>Stream\<close> starts with well-formed caches (the empty caches of a new
  adapter are) and handles any sequence of messages for which every group and stream name
  it computes is not empty.  Then for every source (the cache key is the container name):
  a source that is cached at the start is never looked up and its cache entry never
  written; a source that is not cached at the start gets exactly one cache write if Docker
  can inspect the container for one of its messages, and none otherwise; and the number of
  lookups is at most the number of cache writes plus the number of its messages for which
  the inspection fails, so it is at most one when no inspection fails.
\<close>

theorem C2_lookups_and_cache_writes:
  assumes "cache_ok a" and "\<forall>inc \<in> set logstream. names_nonempty eng environ a inc"
    and "adapter_Stream eng environ a logstream = (a', evs)"
  shows "cache_writes n evs \<le> 1 \<and>
    (groupnames a n \<noteq> None \<longrightarrow> lookups n evs = 0 \<and> cache_writes n evs = 0) \<and>
    (groupnames a n = None \<longrightarrow>
       cache_writes n evs =
         (if \<exists>inc \<in> set logstream. inspection_succeeds n inc then 1 else 0)) \<and>
    lookups n evs \<le> cache_writes n evs + length (filter (inspection_fails n) logstream)"
  using adapter_Stream_counts [OF assms, of n] by (simp split: if_splits)


theorem C2_witness:
  "cache_writes ''/web''
     (snd (adapter_Stream example_engine Map.empty (NewCloudwatchAdapter Map.empty ''host1'')
        [(example_record ''/web'' [''PATH=/bin''], 0, Inr Map.empty),
         (example_record ''/web'' [''PATH=/bin''], 1, Inr Map.empty)])) = 1 \<and>
   lookups ''/web''
     (snd (adapter_Stream example_engine Map.empty (NewCloudwatchAdapter Map.empty ''host1'')
        [(example_record ''/web'' [''PATH=/bin''], 0, Inr Map.empty),
         (example_record ''/web'' [''PATH=/bin''], 1, Inr Map.empty)])) \<le> 1"
proof -
  let ?a = "NewCloudwatchAdapter Map.empty ''host1''"
  let ?l = "[(example_record ''/web'' [''PATH=/bin''], 0, Inr Map.empty),
         (example_record ''/web'' [''PATH=/bin''], 1, Inr Map.empty)]"
  have ne: "\<forall>inc \<in> set ?l. names_nonempty example_engine Map.empty ?a inc"
    by (simp add: example_names_nonempty)
  have run: "adapter_Stream example_engine Map.empty ?a ?l =
      (fst (adapter_Stream example_engine Map.empty ?a ?l),
       snd (adapter_Stream example_engine Map.empty ?a ?l))"
    by simp
  have fresh: "groupnames ?a ''/web'' = None" by (simp add: NewCloudwatchAdapter_def)
  from C2_lookups_and_cache_writes [OF cache_ok_New ne run, of "''/web''"] fresh
  show ?thesis
    by (simp add: inspection_succeeds_def inspection_fails_def example_record_simps)
qed

text \<open>
  Outside the amended claim: a container whose environment sets \<open>LOG_GROUP\<close> to the
  empty text gets the empty group name, and the test \<open>groupName == ""\<close> of \<open>Stream\<close>
  then takes the cached entry for a miss at every message.
\<close>

lemma empty_name_is_looked_up_again:
  "snd (adapter_Stream example_engine Map.empty (NewCloudwatchAdapter Map.empty ''host1'')
     [(example_record ''/web'' [''LOG_GROUP=''], 0, Inr Map.empty),
      (example_record ''/web'' [''LOG_GROUP=''], 1, Inr Map.empty)]) =
   [InspectContainer ''/web'' ''abc'', CacheWrite ''/web'' [] ''web'',
    Send \<lparr>Message = ''hello'', Group = [], Stream = ''web'', Time = 0, Container = ''web''\<rparr>,
    InspectContainer ''/web'' ''abc'', CacheWrite ''/web'' [] ''web'',
    Send \<lparr>Message = ''hello'', Group = [], Stream = ''web'', Time = 1, Container = ''web''\<rparr>]"
  by (simp add: Stream_step_def Let_def renderEnvValue_def finalVal_of_def Getenv_def
      Stream_context_def NewCloudwatchAdapter_def example_engine_def example_record_simps)

subsection \<open>The batcher\<close>

lemma msgSize_pos: "0 < msgSize msg"
  by (simp add: msgSize_def MSG_OVERHEAD_def)

lemma sum_msgSize_nonneg: "0 \<le> sum_list (map msgSize ms)"
  by (induction ms) (simp_all add: less_imp_le [OF msgSize_pos])

lemma batcher_input_eq:
  "batcher_input batches msg =
     (if MAX_BATCH_SIZE < Size (current_batch batches msg) + msgSize msg
      then ([current_batch batches msg],
            batches(Container msg \<mapsto> Append NewCloudwatchBatch msg))
      else ([], batches(Container msg \<mapsto> Append (current_batch batches msg) msg)))"
  by (cases "batches (Container msg)")
     (simp_all add: batcher_input_def current_batch_def Let_def)

lemma batch_ok_New: "batch_ok NewCloudwatchBatch"
  by (simp add: batch_ok_def NewCloudwatchBatch_def MAX_BATCH_SIZE_def)

lemma batch_ok_Append_New: "batch_ok (Append NewCloudwatchBatch msg)"
  by (simp add: batch_ok_def NewCloudwatchBatch_def Append_def) linarith

lemma batch_ok_Append:
  "batch_ok b \<Longrightarrow> \<not> MAX_BATCH_SIZE < Size b + msgSize msg \<Longrightarrow> batch_ok (Append b msg)"
  by (simp add: batch_ok_def Append_def)



lemma batches_ok_upd: "batches_ok batches \<Longrightarrow> batch_ok b \<Longrightarrow> batches_ok (batches(k \<mapsto> b))"
  by (simp add: batches_ok_def)

lemma batches_ok_del: "batches_ok batches \<Longrightarrow> batches_ok (batches(k := None))"
  by (simp add: batches_ok_def)

lemma batches_ok_current:
  "batches_ok batches \<Longrightarrow>
   batch_ok (case batches k of None \<Rightarrow> NewCloudwatchBatch | Some b \<Rightarrow> b)"
  by (cases "batches k") (simp_all add: batches_ok_def batch_ok_New)

lemma batcher_input_ok:
  assumes "batches_ok batches" and "batcher_input batches msg = (sent, batches')"
  shows "(\<forall>b \<in> set sent. batch_ok b) \<and> batches_ok batches'"
proof -
  let ?cur = "current_batch batches msg"
  have cur: "batch_ok ?cur"
    unfolding current_batch_def using assms(1) by (rule batches_ok_current)
  show ?thesis
  proof (cases "MAX_BATCH_SIZE < Size ?cur + msgSize msg")
    case True
    with assms(2) have "sent = [?cur]"
      and "batches' = batches(Container msg \<mapsto> Append NewCloudwatchBatch msg)"
      by (simp_all add: batcher_input_eq)
    then show ?thesis
      using cur batches_ok_upd [OF assms(1) batch_ok_Append_New] by simp
  next
    case False
    with assms(2) have "sent = []"
      and "batches' = batches(Container msg \<mapsto> Append ?cur msg)"
      by (simp_all add: batcher_input_eq)
    then show ?thesis
      using batches_ok_upd [OF assms(1) batch_ok_Append [OF cur False]] by simp
  qed
qed


lemma batcher_timer_ok:
  "batches_ok batches \<Longrightarrow> batcher_timer order batches = (sent, batches') \<Longrightarrow>
   (\<forall>b \<in> set sent. batch_ok b) \<and> batches_ok batches'"
proof (induction order arbitrary: batches sent batches')
  case Nil
  then show ?case by simp
next
  case (Cons container order)
  show ?case
  proof (cases "batches container")
    case None
    with Cons.prems have "batcher_timer order batches = (sent, batches')" by simp
    from Cons.IH [OF Cons.prems(1) this] show ?thesis .
  next
    case (Some batch)
    obtain out bs where rest: "batcher_timer order (batches(container := None)) = (out, bs)"
      by (cases "batcher_timer order (batches(container := None))")
    with Some Cons.prems(2) have eq: "sent = batch # out" "batches' = bs" by simp_all
    from Some Cons.prems(1) have b: "batch_ok batch" by (simp add: batches_ok_def)
    from Cons.IH [OF batches_ok_del [OF Cons.prems(1)] rest] b eq show ?thesis by simp
  qed
qed

text \<open>
  With an order that the runtime can choose, the timer case sends every open batch once
  and leaves the map empty.
\<close>

lemma batcher_timer_range_order:
  "range_order order batches \<Longrightarrow>
   batcher_timer order batches = (map (\<lambda>k. the (batches k)) order, Map.empty)"
proof (induction order arbitrary: batches)
  case Nil
  then have "dom batches = {}" by (simp add: range_order_def)
  then show ?case by simp
next
  case (Cons k ks)
  from Cons.prems have d: "distinct ks" and nk: "k \<notin> set ks"
    and s: "insert k (set ks) = dom batches"
    by (simp_all add: range_order_def)
  from s have "k \<in> dom batches" by blast
  then obtain b where b: "batches k = Some b" by blast
  have "dom (batches(k := None)) = dom batches - {k}" by simp
  also have "\<dots> = set ks" using s nk by blast
  finally have "range_order ks (batches(k := None))" using d by (simp add: range_order_def)
  from Cons.IH [OF this]
  have rest: "batcher_timer ks (batches(k := None)) =
      (map (\<lambda>k'. the ((batches(k := None)) k')) ks, Map.empty)" .
  have same: "map (\<lambda>k'. the ((batches(k := None)) k')) ks = map (\<lambda>k. the (batches k)) ks"
  proof (rule map_cong [OF refl])
    fix x assume "x \<in> set ks"
    with nk have "x \<noteq> k" by blast
    then show "the ((batches(k := None)) x) = the (batches x)" by simp
  qed
  have "batcher_timer (k # ks) batches = (b # map (\<lambda>k. the (batches k)) ks, Map.empty)"
    using b rest same by simp
  then show ?case using b by simp
qed

lemma batcher_step_ok:
  "batches_ok batches \<Longrightarrow> batcher_step batches ev = (sent, batches') \<Longrightarrow>
   (\<forall>b \<in> set sent. batch_ok b) \<and> batches_ok batches'"
proof (cases ev)
  case (Input msg)
  assume "batches_ok batches" and "batcher_step batches ev = (sent, batches')"
  with Input show ?thesis by (simp add: batcher_step_def) (rule batcher_input_ok)
next
  case (Timer order)
  assume "batches_ok batches" and "batcher_step batches ev = (sent, batches')"
  with Timer show ?thesis by (simp add: batcher_step_def) (rule batcher_timer_ok)
qed

lemma batcher_Start_ok:
  "batches_ok batches \<Longrightarrow> batcher_Start batches evs = (sent, batches') \<Longrightarrow>
   (\<forall>b \<in> set sent. batch_ok b) \<and> batches_ok batches'"
proof (induction evs arbitrary: batches sent batches')
  case Nil
  then show ?case by simp
next
  case (Cons ev evs)
  obtain out1 bs1 where s1: "batcher_step batches ev = (out1, bs1)"
    by (cases "batcher_step batches ev")
  obtain out2 bs2 where s2: "batcher_Start bs1 evs = (out2, bs2)"
    by (cases "batcher_Start bs1 evs")
  from Cons.prems(2) s1 s2 have eq: "sent = out1 @ out2" "batches' = bs2" by simp_all
  from batcher_step_ok [OF Cons.prems(1) s1]
  have ok1: "\<forall>b \<in> set out1. batch_ok b" and inv1: "batches_ok bs1" by simp_all
  from Cons.IH [OF inv1 s2] ok1 eq show ?case by auto
qed

lemma batcher_Start_Cons:
  "batcher_Start batches (ev # evs) =
     (fst (batcher_step batches ev) @ fst (batcher_Start (snd (batcher_step batches ev)) evs),
      snd (batcher_Start (snd (batcher_step batches ev)) evs))"
  by (simp split: prod.splits)


lemma example_msg_simps:
  "Container (example_msg c n) = c" "msgSize (example_msg c n) = int n * 8 + 26"
  "Msgs NewCloudwatchBatch = []" "Size NewCloudwatchBatch = 0" "MAX_BATCH_SIZE = 3000"
  by (simp_all add: example_msg_def msgSize_def MSG_OVERHEAD_def NewCloudwatchBatch_def
        MAX_BATCH_SIZE_def)

lemma ex_run:
  "batcher_Start Map.empty
     [Input (example_msg ''c'' 200), Input (example_msg ''c'' 200), Timer [''c'']] =
   ([\<lparr>Msgs = [example_msg ''c'' 200], Size = 1626\<rparr>,
     \<lparr>Msgs = [example_msg ''c'' 200], Size = 1626\<rparr>], Map.empty)"
  by (simp add: batcher_step_def batcher_input_eq current_batch_def Append_def example_msg_simps)

lemma batcher_Start_append:
  "batcher_Start batches (evs1 @ evs2) =
     (fst (batcher_Start batches evs1) @
        fst (batcher_Start (snd (batcher_Start batches evs1)) evs2),
      snd (batcher_Start (snd (batcher_Start batches evs1)) evs2))"
  by (induction evs1 arbitrary: batches) (simp_all split: prod.splits)

lemma batcher_Start_fits:
  assumes "\<forall>m \<in> set ms. Container m = k" and "batches k = Some b"
    and "Size b + sum_list (map msgSize ms) \<le> MAX_BATCH_SIZE"
  shows "batcher_Start batches (map Input ms) =
           ([], batches(k \<mapsto> \<lparr>Msgs = Msgs b @ ms, Size = Size b + sum_list (map msgSize ms)\<rparr>))"
  using assms
proof (induction ms arbitrary: batches b)
  case Nil
  then show ?case by (simp add: map_upd_triv)
next
  case (Cons m ms)
  have k: "Container m = k" using Cons.prems(1) by simp
  have "0 \<le> sum_list (map msgSize ms)" by (rule sum_msgSize_nonneg)
  with Cons.prems(3) have fit: "\<not> MAX_BATCH_SIZE < Size b + msgSize m" by simp
  have step: "batcher_step batches (Input m) = ([], batches(k \<mapsto> Append b m))"
    using fit k Cons.prems(2) by (simp add: batcher_step_def batcher_input_eq current_batch_def)
  have "batcher_Start (batches(k \<mapsto> Append b m)) (map Input ms) =
      ([], (batches(k \<mapsto> Append b m))(k \<mapsto> \<lparr>Msgs = Msgs (Append b m) @ ms,
             Size = Size (Append b m) + sum_list (map msgSize ms)\<rparr>))"
    using Cons.prems(1,3) by (intro Cons.IH) (simp_all add: Append_def)
  then have rest: "batcher_Start (batches(k \<mapsto> Append b m)) (map Input ms) =
      ([], batches(k \<mapsto> \<lparr>Msgs = Msgs b @ m # ms,
             Size = Size b + sum_list (map msgSize (m # ms))\<rparr>))"
    by (simp add: Append_def add.assoc)
  have "batcher_Start batches (map Input (m # ms)) =
      batcher_Start (batches(k \<mapsto> Append b m)) (map Input ms)"
    using step by simp
  with rest have "batcher_Start batches (map Input (m # ms)) = ([], batches(k \<mapsto> \<lparr>Msgs = Msgs b @ m # ms,
             Size = Size b + sum_list (map msgSize (m # ms))\<rparr>))" by (simp only:)
  then show ?case .
qed


lemma batcher_Start_Input_Cons:
  "batcher_step batches (Input m) = (sent1, batches1) \<Longrightarrow>
   batcher_Start batches1 (map Input ms) = (sent2, batches2) \<Longrightarrow>
   batcher_Start batches (map Input (m # ms)) = (sent1 @ sent2, batches2)"
  by simp

text \<open>
  C3.  Every batch the batcher sends on \<open>output\<close>, whatever messages and timer ticks
  arrive from its start, has a \<open>Size\<close> that is the sum of the \<open>msgSize\<close> of its
  messages (eight times the length of the text plus 26), and a \<open>Size\<close> of at most
  \<open>MAX_BATCH_SIZE\<close> unless it holds exactly one message whose own size is above
  \<open>MAX_BATCH_SIZE\<close>.
\<close>

theorem C3_batch_size_invariant:
  "batcher_Start Map.empty evs = (sent, batches) \<Longrightarrow>
   \<forall>b \<in> set sent.
     Size b = sum_list (map msgSize (Msgs b)) \<and>
     (Size b \<le> MAX_BATCH_SIZE \<or> (\<exists>m. Msgs b = [m] \<and> MAX_BATCH_SIZE < msgSize m))"
proof -
  assume run: "batcher_Start Map.empty evs = (sent, batches)"
  have "batches_ok Map.empty" by (simp add: batches_ok_def)
  from batcher_Start_ok [OF this run] have "\<forall>b \<in> set sent. batch_ok b" by simp
  then show ?thesis unfolding batch_ok_def .
qed

theorem C3_witness:
  "batcher_Start Map.empty
     [Input (example_msg ''c'' 200), Input (example_msg ''c'' 200), Timer [''c'']] =
   ([\<lparr>Msgs = [example_msg ''c'' 200], Size = 1626\<rparr>,
     \<lparr>Msgs = [example_msg ''c'' 200], Size = 1626\<rparr>], Map.empty) \<and>
   Size \<lparr>Msgs = [example_msg ''c'' 200], Size = 1626\<rparr> =
     sum_list (map msgSize (Msgs \<lparr>Msgs = [example_msg ''c'' 200], Size = 1626\<rparr>)) \<and>
   Size \<lparr>Msgs = [example_msg ''c'' 200], Size = 1626\<rparr> \<le> MAX_BATCH_SIZE"
proof -
  have "Size \<lparr>Msgs = [example_msg ''c'' 200], Size = 1626\<rparr> =
     sum_list (map msgSize (Msgs \<lparr>Msgs = [example_msg ''c'' 200], Size = 1626\<rparr>)) \<and>
   Size \<lparr>Msgs = [example_msg ''c'' 200], Size = 1626\<rparr> \<le> MAX_BATCH_SIZE"
    using C3_batch_size_invariant [OF ex_run] by (simp add: example_msg_simps)
  with ex_run show ?thesis by (rule conjI)
qed


text \<open>
  C8 (the claim as stated fails).  Two messages of 1626 bytes of size each from one
  container: the sizes first exceed \<open>MAX_BATCH_SIZE\<close> at the second, and with no timer
  tick the batcher sends one batch, not two; the second batch stays in the map.
\<close>

theorem C8_counterexample:
  "msgSize (example_msg ''c'' 200) \<le> MAX_BATCH_SIZE \<and>
   MAX_BATCH_SIZE < msgSize (example_msg ''c'' 200) + msgSize (example_msg ''c'' 200) \<and>
   fst (batcher_Start Map.empty
          [Input (example_msg ''c'' 200), Input (example_msg ''c'' 200)]) =
     [\<lparr>Msgs = [example_msg ''c'' 200], Size = 1626\<rparr>] \<and>
   length (fst (batcher_Start Map.empty
          [Input (example_msg ''c'' 200), Input (example_msg ''c'' 200)])) \<noteq> 2"
  by (simp add: batcher_step_def batcher_input_eq current_batch_def Append_def example_msg_simps)

text \<open>
  C8 (amended).  A container with no open batch sends the messages \<open>pre\<close>, then \<open>c\<close>,
  then \<open>post\<close>, where \<open>pre\<close> is not empty and fits in a batch, \<open>c\<close> is the message at
  which the sum first exceeds \<open>MAX_BATCH_SIZE\<close>, and \<open>c\<close> with \<open>post\<close> fits in a
  batch (or \<open>post\<close> is empty).  With no timer tick the batcher sends exactly one batch,
  which holds \<open>pre\<close> in the order of arrival, and keeps open a second batch, which starts
  with \<open>c\<close> and holds \<open>post\<close> after it.
\<close>

theorem C8_overflow_flush:
  assumes same: "\<forall>m \<in> set (pre @ c # post). Container m = k"
    and fresh: "batches k = None" and pre: "pre \<noteq> []"
    and below: "sum_list (map msgSize pre) \<le> MAX_BATCH_SIZE"
    and cross: "MAX_BATCH_SIZE < sum_list (map msgSize pre) + msgSize c"
    and rest: "post \<noteq> [] \<longrightarrow> msgSize c + sum_list (map msgSize post) \<le> MAX_BATCH_SIZE"
  shows "batcher_Start batches (map Input (pre @ c # post)) =
     ([\<lparr>Msgs = pre, Size = sum_list (map msgSize pre)\<rparr>],
      batches(k \<mapsto> \<lparr>Msgs = c # post, Size = msgSize c + sum_list (map msgSize post)\<rparr>))"
proof -
  obtain p ps where p: "pre = p # ps" using pre by (cases pre) simp_all
  let ?B1 = "batches(k \<mapsto> Append NewCloudwatchBatch p)"
  let ?full = "\<lparr>Msgs = pre, Size = sum_list (map msgSize pre)\<rparr>"
  let ?B2 = "batches(k \<mapsto> ?full)"
  let ?B3 = "batches(k \<mapsto> Append NewCloudwatchBatch c)"
  let ?open = "\<lparr>Msgs = c # post, Size = msgSize c + sum_list (map msgSize post)\<rparr>"
  have kp: "Container p = k" and kc: "Container c = k"
    and kps: "\<forall>m \<in> set ps. Container m = k" and kpost: "\<forall>m \<in> set post. Container m = k"
    using same p by simp_all
  have "0 \<le> sum_list (map msgSize ps)" by (rule sum_msgSize_nonneg)
  with below p have fitp: "\<not> MAX_BATCH_SIZE < msgSize p" by simp
  have s1: "batcher_step batches (Input p) = ([], ?B1)"
    using fresh kp fitp
    by (simp add: batcher_step_def batcher_input_eq current_batch_def NewCloudwatchBatch_def)
  have "batcher_Start ?B1 (map Input ps) =
      ([], ?B1(k \<mapsto> \<lparr>Msgs = Msgs (Append NewCloudwatchBatch p) @ ps,
                       Size = Size (Append NewCloudwatchBatch p) + sum_list (map msgSize ps)\<rparr>))"
    using kps below p
    by (intro batcher_Start_fits) (simp_all add: Append_def NewCloudwatchBatch_def)
  then have s2: "batcher_Start ?B1 (map Input ps) = ([], ?B2)"
    using p by (simp add: Append_def NewCloudwatchBatch_def)
  have run_pre: "batcher_Start batches (map Input pre) = ([], ?B2)"
    using batcher_Start_Input_Cons [OF s1 s2] p by simp
  have s3: "batcher_step ?B2 (Input c) = ([?full], ?B3)"
    using kc cross by (simp add: batcher_step_def batcher_input_eq current_batch_def)
  have s4: "batcher_Start ?B3 (map Input post) = ([], batches(k \<mapsto> ?open))"
  proof (cases "post = []")
    case True
    then show ?thesis by (simp add: Append_def NewCloudwatchBatch_def)
  next
    case False
    with rest have le: "msgSize c + sum_list (map msgSize post) \<le> MAX_BATCH_SIZE" by simp
    have "batcher_Start ?B3 (map Input post) =
        ([], ?B3(k \<mapsto> \<lparr>Msgs = Msgs (Append NewCloudwatchBatch c) @ post,
                       Size = Size (Append NewCloudwatchBatch c) + sum_list (map msgSize post)\<rparr>))"
      using kpost le
      by (intro batcher_Start_fits) (simp_all add: Append_def NewCloudwatchBatch_def)
    then show ?thesis by (simp add: Append_def NewCloudwatchBatch_def)
  qed
  have run_post: "batcher_Start ?B2 (map Input (c # post)) = ([?full], batches(k \<mapsto> ?open))"
    using batcher_Start_Input_Cons [OF s3 s4] by simp
  have "batcher_Start batches (map Input pre @ map Input (c # post)) =
      ([?full], batches(k \<mapsto> ?open))"
    by (simp only: batcher_Start_append run_pre run_post fst_conv snd_conv append_Nil)
  then show ?thesis by simp
qed

theorem C8_witness:
  "batcher_Start Map.empty
     (map Input ([example_msg ''c'' 100, example_msg ''c'' 200] @
        example_msg ''c'' 150 # [example_msg ''c'' 10])) =
   ([\<lparr>Msgs = [example_msg ''c'' 100, example_msg ''c'' 200], Size = 2452\<rparr>],
    [''c'' \<mapsto> \<lparr>Msgs = [example_msg ''c'' 150, example_msg ''c'' 10], Size = 1332\<rparr>])"
  using C8_overflow_flush [of "[example_msg ''c'' 100, example_msg ''c'' 200]"
      "example_msg ''c'' 150" "[example_msg ''c'' 10]" "''c''" Map.empty]
  by (simp add: example_msg_simps)

text \<open>
  C9 (the code differs).  The claim: no batch sent to the uploader is empty, so
  \<open>batch.Msgs[0]\<close> never fails.  The code sends an empty batch when the first message of
  a container is too big for a batch by itself (372 bytes of text give a size of 3002):
  the new, empty batch of the container is sent before the message is appended to its
  successor, and the uploader panics on it.
\<close>

theorem C9_empty_batch_sent:
  "batcher_Start Map.empty [Input (example_msg ''c'' 372)] =
     ([\<lparr>Msgs = [], Size = 0\<rparr>],
      [''c'' \<mapsto> \<lparr>Msgs = [example_msg ''c'' 372], Size = 3002\<rparr>]) \<and>
   uploader_step svc (tokens, s) \<lparr>Msgs = [], Size = 0\<rparr> = Some (Inl IndexOutOfRange)"
  by (simp add: batcher_step_def batcher_input_eq current_batch_def Append_def example_msg_simps
        NewCloudwatchBatch_def uploader_step_def)

subsection \<open>The uploader\<close>

lemma getSequenceToken_returns:
  "getSequenceToken_body svc msg s = Inl returned \<Longrightarrow> getSequenceToken svc msg s = Some returned"
  by (subst getSequenceToken.simps) simp

lemma getSequenceToken_retry:
  "getSequenceToken_body svc msg s = Inr s4 \<Longrightarrow>
   getSequenceToken svc msg s = getSequenceToken svc msg s4"
  by (subst getSequenceToken.simps) simp

lemma getSequenceToken_retries:
  "retry_state svc msg n s = Some s' \<Longrightarrow>
   getSequenceToken svc msg s = getSequenceToken svc msg s'"
proof (induction n arbitrary: s)
  case 0
  then show ?case by simp
next
  case (Suc n)
  then obtain s4 where b: "getSequenceToken_body svc msg s = Inr s4"
    and r: "retry_state svc msg n s4 = Some s'"
    by (auto split: sum.splits)
  from getSequenceToken_retry [OF b] Suc.IH [OF r] show ?case by simp
qed

lemma body_example_svc:
  "getSequenceToken_body (example_svc [Group msg] lag put) msg n =
     (if n < lag then Inr (Suc n) else Inl (Inr (Some ''t0''), n))"
  by (simp add: getSequenceToken_body_def groupExists_def createGroup_def createStream_def
        example_svc_def)

lemma retry_state_example_svc:
  "retry_state (example_svc [Group msg] (n + k) put) msg k n = Some (n + k)"
proof (induction k arbitrary: n)
  case 0
  show ?case by simp
next
  case (Suc k)
  from Suc [of "Suc n"] show ?case by (simp add: body_example_svc)
qed

lemma getSequenceToken_example_svc:
  "getSequenceToken (example_svc [Group msg] lag put) msg 0 = Some (Inr (Some ''t0''), lag)"
proof -
  have "retry_state (example_svc [Group msg] lag put) msg lag 0 = Some lag"
    using retry_state_example_svc [of msg 0 lag put] by simp
  from getSequenceToken_retries [OF this]
  show ?thesis by (simp add: getSequenceToken_returns body_example_svc)
qed


lemma uploader_post_success:
  "PutLogEvents svc (PutLogEvents_params batch msg token) s = (Inr NextSequenceToken, s') \<Longrightarrow>
   uploader_post svc tokens s batch msg token =
     (case NextSequenceToken of Some next \<Rightarrow> tokens(Container msg \<mapsto> next) | None \<Rightarrow> tokens,
      s', [PutLogEvents_params batch msg token])"
  by (simp add: uploader_post_def split: option.splits)

lemma uploader_post_posted:
  "snd (snd (uploader_post svc tokens s batch msg token)) = [PutLogEvents_params batch msg token]"
  by (simp add: uploader_post_def Let_def split: prod.splits sum.splits option.splits)

lemma uploader_post_cache:
  "uploader_post svc tokens s batch msg token = (tokens', s', posted) \<Longrightarrow>
   tokens' = tokens \<or>
   (\<exists>next. PutLogEvents svc (PutLogEvents_params batch msg token) s = (Inr (Some next), s') \<and>
      tokens' = tokens(Container msg \<mapsto> next))"
  by (auto simp: uploader_post_def Let_def split: prod.splits sum.splits option.splits)

lemma uploader_step_cached:
  "Msgs batch = msg # rest \<Longrightarrow> tokens (Container msg) = Some cachedToken \<Longrightarrow>
   uploader_step svc (tokens, s) batch =
     Some (Inr (uploader_post svc tokens s batch msg (Some cachedToken)))"
  by (simp add: uploader_step_def)

lemma uploader_step_fetch_error:
  "Msgs batch = msg # rest \<Longrightarrow> tokens (Container msg) = None \<Longrightarrow>
   getSequenceToken svc msg s = Some (Inl err, s') \<Longrightarrow>
   uploader_step svc (tokens, s) batch = Some (Inr (tokens, s', []))"
  by (simp add: uploader_step_def)

lemma uploader_step_fetched:
  "Msgs batch = msg # rest \<Longrightarrow> tokens (Container msg) = None \<Longrightarrow>
   getSequenceToken svc msg s = Some (Inr awsToken, s') \<Longrightarrow>
   uploader_step svc (tokens, s) batch =
     Some (Inr (uploader_post svc
                  (case awsToken of Some t \<Rightarrow> tokens(Container msg \<mapsto> t) | None \<Rightarrow> tokens)
                  s' batch msg awsToken))"
  by (simp add: uploader_step_def split: option.splits)

lemma body_retry_eq:
  "(getSequenceToken_body svc msg s = Inr s4) =
     (\<exists>exists s1 s2 s3.
        groupExists svc (Group msg) s = (Inr exists, s1) \<and>
        (if exists then s2 = s1 else createGroup svc (Group msg) s1 = (None, s2)) \<and>
        DescribeLogStreams svc (Group msg) (Stream msg) s2 = (Inr [], s3) \<and>
        createStream svc (Group msg) (Stream msg) s3 = (None, s4))"
  by (auto simp: getSequenceToken_body_def Let_def
      split: prod.splits sum.splits option.splits if_splits)

lemma body_group_error:
  "groupExists svc (Group msg) s = (Inl err, s1) \<Longrightarrow>
   getSequenceToken_body svc msg s = Inl (Inl err, s1)"
  by (simp add: getSequenceToken_body_def)

lemma body_createGroup_error:
  "groupExists svc (Group msg) s = (Inr False, s1) \<Longrightarrow>
   createGroup svc (Group msg) s1 = (Some err, s2) \<Longrightarrow>
   getSequenceToken_body svc msg s = Inl (Inl err, s2)"
  by (simp add: getSequenceToken_body_def)

lemma body_ready:
  "group_ready svc msg s s2 \<Longrightarrow>
   getSequenceToken_body svc msg s =
     (case DescribeLogStreams svc (Group msg) (Stream msg) s2 of
        (Inl err, s3) \<Rightarrow> Inl (Inl err, s3)
      | (Inr LogStreams, s3) \<Rightarrow>
          if length LogStreams > 1
          then Inl (Inl (Error (Itoa (length LogStreams) @ '' streams match group ''
                          @ Group msg @ '', stream '' @ Stream msg @ ''!'')), s3)
          else if length LogStreams = 0
          then (case createStream svc (Group msg) (Stream msg) s3 of
                  (Some err, s4) \<Rightarrow> Inl (Inl err, s4)
                | (None, s4) \<Rightarrow> Inr s4)
          else Inl (Inr (LogStreams ! 0), s3))"
  by (auto simp: group_ready_def getSequenceToken_body_def Let_def split: if_splits)

lemma body_describe_error:
  "group_ready svc msg s s2 \<Longrightarrow>
   DescribeLogStreams svc (Group msg) (Stream msg) s2 = (Inl err, s3) \<Longrightarrow>
   getSequenceToken_body svc msg s = Inl (Inl err, s3)"
  by (simp add: body_ready)

lemma body_too_many:
  "group_ready svc msg s s2 \<Longrightarrow>
   DescribeLogStreams svc (Group msg) (Stream msg) s2 = (Inr LogStreams, s3) \<Longrightarrow>
   1 < length LogStreams \<Longrightarrow>
   getSequenceToken_body svc msg s =
     Inl (Inl (Error (Itoa (length LogStreams) @ '' streams match group ''
                          @ Group msg @ '', stream '' @ Stream msg @ ''!'')), s3)"
  by (simp add: body_ready)

lemma body_createStream_error:
  "group_ready svc msg s s2 \<Longrightarrow>
   DescribeLogStreams svc (Group msg) (Stream msg) s2 = (Inr [], s3) \<Longrightarrow>
   createStream svc (Group msg) (Stream msg) s3 = (Some err, s4) \<Longrightarrow>
   getSequenceToken_body svc msg s = Inl (Inl err, s4)"
  by (simp add: body_ready)

lemma body_one_match:
  "group_ready svc msg s s2 \<Longrightarrow>
   DescribeLogStreams svc (Group msg) (Stream msg) s2 = (Inr [UploadSequenceToken], s3) \<Longrightarrow>
   getSequenceToken_body svc msg s = Inl (Inr UploadSequenceToken, s3)"
  by (simp add: body_ready)


lemma body_retry_ready:
  "(getSequenceToken_body svc msg s = Inr s4) =
     (\<exists>s2 s3. group_ready svc msg s s2 \<and>
        DescribeLogStreams svc (Group msg) (Stream msg) s2 = (Inr [], s3) \<and>
        createStream svc (Group msg) (Stream msg) s3 = (None, s4))"
  unfolding body_retry_eq group_ready_def by blast

lemma filter_two:
  assumes "x \<in> set xs" "y \<in> set xs" "x \<noteq> y" "P x" "P y"
  shows "1 < length (filter P xs)"
proof -
  have "{x, y} \<subseteq> set (filter P xs)" using assms by simp
  then have "card {x, y} \<le> card (set (filter P xs))" by (intro card_mono) simp_all
  also have "\<dots> \<le> length (filter P xs)" by (rule card_length)
  finally show ?thesis using assms(3) by simp
qed

lemma groupExists_too_many:
  "DescribeLogGroups svc groupName s = (Inr LogGroups, s1) \<Longrightarrow> 1 < length LogGroups \<Longrightarrow>
   groupExists svc groupName s =
     (Inl (Error (Itoa (length LogGroups) @ '' groups match group '' @ groupName @ ''!'')), s1)"
  by (simp add: groupExists_def)

lemma getSequenceToken_group_error:
  "groupExists svc (Group msg) s = (Inl err, s1) \<Longrightarrow>
   getSequenceToken svc msg s = Some (Inl err, s1)"
  by (rule getSequenceToken_returns) (simp add: getSequenceToken_body_def)

lemma example_batch_simps:
  "Group (example_msg c n) = ''host1''" "Stream (example_msg c n) = c"
  "Message (example_msg c n) = replicate n (CHR ''x'')" "Time (example_msg c n) = 0"
  by (simp_all add: example_msg_def)

lemma example_svc_simps:
  "DescribeLogGroups (example_svc existing lag put) p n = (Inr (filter (prefix p) existing), n)"
  "PutLogEvents (example_svc existing lag put) params n = (put, n)"
  by (simp_all add: example_svc_def)

lemma getSequenceToken_example:
  "getSequenceToken (example_svc [''host1''] lag put) (example_msg c n) 0 =
     Some (Inr (Some ''t0''), lag)"
  using getSequenceToken_example_svc [of "example_msg c n" lag put]
  by (simp add: example_batch_simps)

lemma example_svc_streams:
  "DescribeLogStreams (example_svc existing lag put) g p n =
     (Inr (if n < lag then [] else [Some ''t0'']), n)"
  "CreateLogStream (example_svc existing lag put) g p n = (None, Suc n)"
  by (simp_all add: example_svc_def)

lemma example_group_ready:
  "group_ready (example_svc [''host1''] lag put) (example_msg c k) n n"
  by (auto simp: group_ready_def groupExists_def example_svc_simps example_batch_simps)




text \<open>
  C4 (the claim as stated fails).  The stream key has no cached token, the service lists
  the stream with the token \<open>t0\<close>, and \<open>PutLogEvents\<close> fails: the pass ends with
  \<open>t0\<close> cached for the key, written by the token fetch before the submission, and no
  submission succeeded.
\<close>

theorem C4_counterexample:
  "PutLogEvents (example_svc [''host1''] 0 (Inl (Error ''ThrottlingException'')))
     (PutLogEvents_params \<lparr>Msgs = [example_msg ''c'' 5], Size = 66\<rparr> (example_msg ''c'' 5)
        (Some ''t0'')) 0 = (Inl (Error ''ThrottlingException''), 0) \<and>
   uploader_step (example_svc [''host1''] 0 (Inl (Error ''ThrottlingException'')))
     (Map.empty, 0) \<lparr>Msgs = [example_msg ''c'' 5], Size = 66\<rparr> =
   Some (Inr ([''c'' \<mapsto> ''t0''], 0,
     [PutLogEvents_params \<lparr>Msgs = [example_msg ''c'' 5], Size = 66\<rparr> (example_msg ''c'' 5)
        (Some ''t0'')]))"
  by (simp add: uploader_step_def uploader_post_def getSequenceToken_example
        example_svc_simps example_msg_simps)

text \<open>
  C4 (amended).  A pass of the uploader that ends leaves the cached token of every other
  stream key as it was, and the cached token of the key of the batch is either what it
  was, or the token that \<open>getSequenceToken\<close> returned (the key had no cached token), or
  the \<open>NextSequenceToken\<close> that the \<open>PutLogEvents\<close> call of this pass returned with
  its success.  So the cache is written in two places: after the token fetch of a key
  that is not cached, when the fetch returns a token, and after a successful submission
  that returns a next token.
\<close>

theorem C4_token_cache_writes:
  assumes "Msgs batch = msg # rest"
    and "uploader_step svc (tokens, s) batch = Some (Inr (tokens', s', posted))"
  shows "(\<forall>k. k \<noteq> Container msg \<longrightarrow> tokens' k = tokens k) \<and>
    (tokens' (Container msg) = tokens (Container msg) \<or>
     (\<exists>t s1. tokens (Container msg) = None \<and>
        getSequenceToken svc msg s = Some (Inr (Some t), s1) \<and>
        tokens' (Container msg) = Some t) \<or>
     (\<exists>params s1 next. posted = [params] \<and>
        PutLogEvents svc params s1 = (Inr (Some next), s') \<and>
        tokens' (Container msg) = Some next))"
proof (cases "tokens (Container msg)")
  case (Some cachedToken)
  have "uploader_step svc (tokens, s) batch =
      Some (Inr (uploader_post svc tokens s batch msg (Some cachedToken)))"
    using assms(1) Some by (rule uploader_step_cached)
  with assms(2)
  have post: "uploader_post svc tokens s batch msg (Some cachedToken) = (tokens', s', posted)"
    by simp
  from uploader_post_posted [of svc tokens s batch msg "Some cachedToken"] post
  have posted: "posted = [PutLogEvents_params batch msg (Some cachedToken)]" by simp
  from uploader_post_cache [OF post] posted show ?thesis by auto
next
  case None
  from assms(2) None assms(1) obtain r s1 where
    fetch: "getSequenceToken svc msg s = Some (r, s1)"
    by (auto simp: uploader_step_def split: option.splits)
  show ?thesis
  proof (cases r)
    case (Inl err)
    have "uploader_step svc (tokens, s) batch = Some (Inr (tokens, s1, []))"
      using assms(1) None fetch [unfolded Inl] by (rule uploader_step_fetch_error)
    with assms(2) show ?thesis by simp
  next
    case (Inr awsToken)
    let ?tokens1 = "case awsToken of Some t \<Rightarrow> tokens(Container msg \<mapsto> t) | None \<Rightarrow> tokens"
    have "uploader_step svc (tokens, s) batch =
        Some (Inr (uploader_post svc ?tokens1 s1 batch msg awsToken))"
      using assms(1) None fetch [unfolded Inr] by (rule uploader_step_fetched)
    with assms(2)
    have post: "uploader_post svc ?tokens1 s1 batch msg awsToken = (tokens', s', posted)"
      by simp
    from uploader_post_posted [of svc ?tokens1 s1 batch msg awsToken] post
    have posted: "posted = [PutLogEvents_params batch msg awsToken]" by simp
    from uploader_post_cache [OF post]
    show ?thesis
    proof
      assume same: "tokens' = ?tokens1"
      show ?thesis
      proof (cases awsToken)
        case None
        with same show ?thesis by simp
      next
        case (Some t)
        with same fetch Inr \<open>tokens (Container msg) = None\<close> show ?thesis by simp
      qed
    next
      assume "\<exists>next. PutLogEvents svc (PutLogEvents_params batch msg awsToken) s1 =
                  (Inr (Some next), s') \<and> tokens' = ?tokens1(Container msg \<mapsto> next)"
      then obtain "next" where put: "PutLogEvents svc (PutLogEvents_params batch msg awsToken) s1 =
                  (Inr (Some next), s')" and t': "tokens' = ?tokens1(Container msg \<mapsto> next)"
        by blast
      have other: "\<forall>k. k \<noteq> Container msg \<longrightarrow> tokens' k = tokens k"
        using t' by (cases awsToken) simp_all
      have "tokens' (Container msg) = Some next" using t' by simp
      with put posted other show ?thesis by blast
    qed
  qed
qed


theorem C4_witness:
  "uploader_step (example_svc [''host1''] 0 (Inr (Some ''t1'')))
     ([''c'' \<mapsto> ''t9''], 0) \<lparr>Msgs = [example_msg ''c'' 5], Size = 66\<rparr> =
   Some (Inr ([''c'' \<mapsto> ''t1''], 0,
     [PutLogEvents_params \<lparr>Msgs = [example_msg ''c'' 5], Size = 66\<rparr> (example_msg ''c'' 5)
        (Some ''t9'')])) \<and>
   [''c'' \<mapsto> ''t1''] ''d'' = [''c'' \<mapsto> ''t9''] ''d''"
proof -
  have msgs: "Msgs \<lparr>Msgs = [example_msg ''c'' 5], Size = 66\<rparr> = example_msg ''c'' 5 # []"
    by simp
  have step: "uploader_step (example_svc [''host1''] 0 (Inr (Some ''t1'')))
     ([''c'' \<mapsto> ''t9''], 0) \<lparr>Msgs = [example_msg ''c'' 5], Size = 66\<rparr> =
   Some (Inr ([''c'' \<mapsto> ''t1''], 0,
     [PutLogEvents_params \<lparr>Msgs = [example_msg ''c'' 5], Size = 66\<rparr> (example_msg ''c'' 5)
        (Some ''t9'')]))"
    by (simp add: uploader_step_def uploader_post_def example_svc_simps example_msg_simps)
  from C4_token_cache_writes [OF msgs step]
  have "\<forall>k. k \<noteq> Container (example_msg ''c'' 5) \<longrightarrow> [''c'' \<mapsto> ''t1''] k = [''c'' \<mapsto> ''t9''] k"
    by (rule conjunct1)
  then have "[''c'' \<mapsto> ''t1''] ''d'' = [''c'' \<mapsto> ''t9''] ''d''"
    by (simp add: example_msg_simps)
  with step show ?thesis by (rule conjI)
qed

text \<open>
  C5 (the claim as stated fails).  The service lists no stream after the first creation
  either: the second pass finds no stream again, creates the stream again and the method
  calls itself again; the third pass finds the stream and the lookup returns its token.
  The second zero-match is not returned as an error, and the lookup made two retries.
\<close>

theorem C5_counterexample:
  "getSequenceToken_body (example_svc [''host1''] 2 (Inr None)) (example_msg ''c'' 5) 0 = Inr 1 \<and>
   getSequenceToken_body (example_svc [''host1''] 2 (Inr None)) (example_msg ''c'' 5) 1 = Inr 2 \<and>
   getSequenceToken (example_svc [''host1''] 2 (Inr None)) (example_msg ''c'' 5) 0 =
     Some (Inr (Some ''t0''), 2)"
proof -
  have g: "Group (example_msg ''c'' 5) = ''host1''" by (simp add: example_msg_def)
  show ?thesis
    using body_example_svc [of "example_msg ''c'' 5" 2 "Inr None" 0]
      body_example_svc [of "example_msg ''c'' 5" 2 "Inr None" 1]
      getSequenceToken_example_svc [of "example_msg ''c'' 5" 2 "Inr None"]
    by (simp add: g)
qed

text \<open>
  C5 (amended).  A pass of the token lookup calls the lookup again exactly when the group
  check passed (the group exists, or it was created), the listing has no stream and the
  \<open>CreateLogStream\<close> call succeeded; the new call starts from the group check in the
  state of the service after the creation.  Nothing bounds the number of these retries:
  after any number \<open>n\<close> of passes in a row that list no stream and create it, the
  lookup returns what the next pass gives when that pass does not retry, which is: the
  error of the group check; the error of \<open>CreateLogGroup\<close>; the error of
  \<open>DescribeLogStreams\<close>; an error that says how many streams match, when more than one
  does; the error of \<open>CreateLogStream\<close>; and, when exactly one stream matches, the
  token of that stream.
\<close>

theorem C5_lookup_retries_unbounded:
  "(\<forall>s4. (getSequenceToken_body svc msg s = Inr s4) =
      (\<exists>s2 s3. group_ready svc msg s s2 \<and>
         DescribeLogStreams svc (Group msg) (Stream msg) s2 = (Inr [], s3) \<and>
         createStream svc (Group msg) (Stream msg) s3 = (None, s4))) \<and>
   (\<forall>s4. getSequenceToken_body svc msg s = Inr s4 \<longrightarrow>
      getSequenceToken svc msg s = getSequenceToken svc msg s4) \<and>
   (\<forall>n s'. retry_state svc msg n s = Some s' \<longrightarrow>
      (\<forall>returned. getSequenceToken_body svc msg s' = Inl returned \<longrightarrow>
         getSequenceToken svc msg s = Some returned) \<and>
      (\<forall>err s1. groupExists svc (Group msg) s' = (Inl err, s1) \<longrightarrow>
         getSequenceToken svc msg s = Some (Inl err, s1)) \<and>
      (\<forall>err s1 s2.
         groupExists svc (Group msg) s' = (Inr False, s1) \<and>
         createGroup svc (Group msg) s1 = (Some err, s2) \<longrightarrow>
         getSequenceToken svc msg s = Some (Inl err, s2)) \<and>
      (\<forall>s2. group_ready svc msg s' s2 \<longrightarrow>
         (\<forall>err s3. DescribeLogStreams svc (Group msg) (Stream msg) s2 = (Inl err, s3) \<longrightarrow>
            getSequenceToken svc msg s = Some (Inl err, s3)) \<and>
         (\<forall>LogStreams s3.
            DescribeLogStreams svc (Group msg) (Stream msg) s2 = (Inr LogStreams, s3) \<and>
            1 < length LogStreams \<longrightarrow>
            getSequenceToken svc msg s =
              Some (Inl (Error (Itoa (length LogStreams) @ '' streams match group ''
                          @ Group msg @ '', stream '' @ Stream msg @ ''!'')), s3)) \<and>
         (\<forall>err s3 s4.
            DescribeLogStreams svc (Group msg) (Stream msg) s2 = (Inr [], s3) \<and>
            createStream svc (Group msg) (Stream msg) s3 = (Some err, s4) \<longrightarrow>
            getSequenceToken svc msg s = Some (Inl err, s4)) \<and>
         (\<forall>UploadSequenceToken s3.
            DescribeLogStreams svc (Group msg) (Stream msg) s2 =
              (Inr [UploadSequenceToken], s3) \<longrightarrow>
            getSequenceToken svc msg s = Some (Inr UploadSequenceToken, s3))))"
proof -
  have ret: "getSequenceToken svc msg s = Some returned"
    if "retry_state svc msg n s = Some s'" "getSequenceToken_body svc msg s' = Inl returned"
    for n s' returned
    using getSequenceToken_retries [OF that(1)] getSequenceToken_returns [OF that(2)] by simp
  show ?thesis
  proof (intro conjI allI impI)
    fix s4
    show "(getSequenceToken_body svc msg s = Inr s4) =
      (\<exists>s2 s3. group_ready svc msg s s2 \<and>
         DescribeLogStreams svc (Group msg) (Stream msg) s2 = (Inr [], s3) \<and>
         createStream svc (Group msg) (Stream msg) s3 = (None, s4))"
      by (rule body_retry_ready)
  next
    fix s4 assume "getSequenceToken_body svc msg s = Inr s4"
    then show "getSequenceToken svc msg s = getSequenceToken svc msg s4"
      by (rule getSequenceToken_retry)
  next
    fix n s' returned
    assume "retry_state svc msg n s = Some s'" "getSequenceToken_body svc msg s' = Inl returned"
    then show "getSequenceToken svc msg s = Some returned" by (rule ret)
  next
    fix n s' err s1
    assume r: "retry_state svc msg n s = Some s'"
      and "groupExists svc (Group msg) s' = (Inl err, s1)"
    from ret [OF r body_group_error [OF this(2)]]
    show "getSequenceToken svc msg s = Some (Inl err, s1)" .
  next
    fix n s' err s1 s2
    assume r: "retry_state svc msg n s = Some s'"
      and h: "groupExists svc (Group msg) s' = (Inr False, s1) \<and>
         createGroup svc (Group msg) s1 = (Some err, s2)"
    from h have "getSequenceToken_body svc msg s' = Inl (Inl err, s2)"
      using body_createGroup_error [of svc msg s' s1 err s2] by blast
    from ret [OF r this] show "getSequenceToken svc msg s = Some (Inl err, s2)" .
  next
    fix n s' s2 err s3
    assume r: "retry_state svc msg n s = Some s'" and g: "group_ready svc msg s' s2"
      and "DescribeLogStreams svc (Group msg) (Stream msg) s2 = (Inl err, s3)"
    from ret [OF r body_describe_error [OF g this(3)]]
    show "getSequenceToken svc msg s = Some (Inl err, s3)" .
  next
    fix n s' s2 LogStreams s3
    assume r: "retry_state svc msg n s = Some s'" and g: "group_ready svc msg s' s2"
      and h: "DescribeLogStreams svc (Group msg) (Stream msg) s2 = (Inr LogStreams, s3) \<and>
            1 < length LogStreams"
    from h have "getSequenceToken_body svc msg s' =
        Inl (Inl (Error (Itoa (length LogStreams) @ '' streams match group ''
                          @ Group msg @ '', stream '' @ Stream msg @ ''!'')), s3)"
      using body_too_many [OF g, of LogStreams s3] by blast
    from ret [OF r this]
    show "getSequenceToken svc msg s =
              Some (Inl (Error (Itoa (length LogStreams) @ '' streams match group ''
                          @ Group msg @ '', stream '' @ Stream msg @ ''!'')), s3)" .
  next
    fix n s' s2 err s3 s4
    assume r: "retry_state svc msg n s = Some s'" and g: "group_ready svc msg s' s2"
      and h: "DescribeLogStreams svc (Group msg) (Stream msg) s2 = (Inr [], s3) \<and>
            createStream svc (Group msg) (Stream msg) s3 = (Some err, s4)"
    from h have "getSequenceToken_body svc msg s' = Inl (Inl err, s4)"
      using body_createStream_error [OF g, of s3 err s4] by blast
    from ret [OF r this] show "getSequenceToken svc msg s = Some (Inl err, s4)" .
  next
    fix n s' s2 UploadSequenceToken s3
    assume r: "retry_state svc msg n s = Some s'" and g: "group_ready svc msg s' s2"
      and "DescribeLogStreams svc (Group msg) (Stream msg) s2 = (Inr [UploadSequenceToken], s3)"
    from ret [OF r body_one_match [OF g this(3)]]
    show "getSequenceToken svc msg s = Some (Inr UploadSequenceToken, s3)" .
  qed
qed

theorem C5_witness:
  "retry_state (example_svc [''host1''] 1 (Inr None)) (example_msg ''c'' 5) 1 0 = Some 1 \<and>
   group_ready (example_svc [''host1''] 1 (Inr None)) (example_msg ''c'' 5) 1 1 \<and>
   DescribeLogStreams (example_svc [''host1''] 1 (Inr None)) (Group (example_msg ''c'' 5))
     (Stream (example_msg ''c'' 5)) 1 = (Inr [Some ''t0''], 1) \<and>
   getSequenceToken (example_svc [''host1''] 1 (Inr None)) (example_msg ''c'' 5) 0 =
     Some (Inr (Some ''t0''), 1)"
proof -
  have g: "Group (example_msg ''c'' 5) = ''host1''" by (simp add: example_msg_def)
  have b0: "getSequenceToken_body (example_svc [''host1''] 1 (Inr None)) (example_msg ''c'' 5) 0
      = Inr 1"
    using body_example_svc [of "example_msg ''c'' 5" 1 "Inr None" 0] by (simp add: g)
  have r: "retry_state (example_svc [''host1''] 1 (Inr None)) (example_msg ''c'' 5) 1 0 = Some 1"
    using b0 by (simp add: numeral_eq_Suc)
  have ready: "group_ready (example_svc [''host1''] 1 (Inr None)) (example_msg ''c'' 5) 1 1"
    by (rule example_group_ready)
  have listing: "DescribeLogStreams (example_svc [''host1''] 1 (Inr None))
      (Group (example_msg ''c'' 5)) (Stream (example_msg ''c'' 5)) 1 = (Inr [Some ''t0''], 1)"
    by (simp add: example_svc_streams)
  from C5_lookup_retries_unbounded
    [of "example_svc [''host1''] 1 (Inr None)" "example_msg ''c'' 5" 0] r ready listing
  have "getSequenceToken (example_svc [''host1''] 1 (Inr None)) (example_msg ''c'' 5) 0 =
     Some (Inr (Some ''t0''), 1)" by blast
  with r ready listing show ?thesis by (intro conjI)
qed




text \<open>
  C10.  A batch whose stream key has no cached token, for a group whose
  \<open>DescribeLogGroups\<close> listing has more than one entry: \<open>groupExists\<close> returns an
  error, so does the token lookup, and the pass ends with the token cache as it was and
  nothing posted.  This is the case when the service lists by prefix and, next to the
  group of the batch, there is a group whose name the name of the first is a proper
  prefix of.
\<close>

theorem C10_group_listing_ambiguous:
  assumes "Msgs batch = msg # rest" and "tokens (Container msg) = None"
    and "DescribeLogGroups svc (Group msg) s = (Inr LogGroups, s1)"
    and "1 < length LogGroups \<or>
         (\<exists>existing other. LogGroups = filter (prefix (Group msg)) existing \<and>
            Group msg \<in> set existing \<and> other \<in> set existing \<and>
            strict_prefix (Group msg) other)"
  shows "\<exists>err. groupExists svc (Group msg) s = (Inl err, s1) \<and>
           getSequenceToken svc msg s = Some (Inl err, s1) \<and>
           uploader_step svc (tokens, s) batch = Some (Inr (tokens, s1, []))"
proof -
  have many: "1 < length LogGroups"
    using assms(4)
  proof
    assume "1 < length LogGroups"
    then show ?thesis .
  next
    assume "\<exists>existing other. LogGroups = filter (prefix (Group msg)) existing \<and>
            Group msg \<in> set existing \<and> other \<in> set existing \<and>
            strict_prefix (Group msg) other"
    then obtain existing other where l: "LogGroups = filter (prefix (Group msg)) existing"
      and g: "Group msg \<in> set existing" and o: "other \<in> set existing"
      and sp: "strict_prefix (Group msg) other"
      by blast
    from sp have "Group msg \<noteq> other" and "prefix (Group msg) other"
      by (simp_all add: strict_prefix_def)
    with g o show ?thesis unfolding l by (intro filter_two [of "Group msg" _ other]) simp_all
  qed
  let ?err = "Error (Itoa (length LogGroups) @ '' groups match group '' @ Group msg @ ''!'')"
  have ge: "groupExists svc (Group msg) s = (Inl ?err, s1)"
    using assms(3) many by (rule groupExists_too_many)
  then have fetch: "getSequenceToken svc msg s = Some (Inl ?err, s1)"
    by (rule getSequenceToken_group_error)
  have "uploader_step svc (tokens, s) batch = Some (Inr (tokens, s1, []))"
    using assms(1,2) fetch by (rule uploader_step_fetch_error)
  with ge fetch show ?thesis by blast
qed


theorem C10_witness:
  "DescribeLogGroups (example_svc [''host1'', ''host1-b''] 0 (Inr None)) ''host1'' 0 =
     (Inr [''host1'', ''host1-b''], 0) \<and>
   uploader_step (example_svc [''host1'', ''host1-b''] 0 (Inr None)) (Map.empty, 0)
     \<lparr>Msgs = [example_msg ''c'' 5], Size = 66\<rparr> = Some (Inr (Map.empty, 0, []))"
proof -
  have msgs: "Msgs \<lparr>Msgs = [example_msg ''c'' 5], Size = 66\<rparr> = example_msg ''c'' 5 # []"
    by simp
  have fresh: "(Map.empty :: string \<rightharpoonup> string) (Container (example_msg ''c'' 5)) = None"
    by simp
  have listing: "DescribeLogGroups (example_svc [''host1'', ''host1-b''] 0 (Inr None))
      (Group (example_msg ''c'' 5)) 0 = (Inr [''host1'', ''host1-b''], 0)"
    by (simp add: example_svc_simps example_batch_simps)
  have two: "1 < length [''host1'', ''host1-b''] \<or>
         (\<exists>existing other.
            [''host1'', ''host1-b''] = filter (prefix (Group (example_msg ''c'' 5))) existing \<and>
            Group (example_msg ''c'' 5) \<in> set existing \<and> other \<in> set existing \<and>
            strict_prefix (Group (example_msg ''c'' 5)) other)"
    by simp
  from C10_group_listing_ambiguous [OF msgs fresh listing two]
  have abandoned: "uploader_step (example_svc [''host1'', ''host1-b''] 0 (Inr None)) (Map.empty, 0)
     \<lparr>Msgs = [example_msg ''c'' 5], Size = 66\<rparr> = Some (Inr (Map.empty, 0, []))"
    by blast
  from listing
  have "DescribeLogGroups (example_svc [''host1'', ''host1-b''] 0 (Inr None)) ''host1'' 0 =
     (Inr [''host1'', ''host1-b''], 0)"
    by (simp add: example_batch_simps)
  then show ?thesis using abandoned by (rule conjI)
qed

end
